theory Spec2Isabelle
  imports Complex_Main "HOL-Library.Multiset" "HOL-Library.AList"
begin

section \<open>Labels, messages and errors\<close>

text \<open>
  Column labels of a pandas frame are strings (the columns of the data) or integers
  (the columns \<open>0\<close> and \<open>1\<close> of the individual map). An error message is kept as the
  list of the pieces the source formats into its f-string: literal text, numbers, labels,
  and the sets, key lists and shapes whose printed form is left to Python.
\<close>

datatype label = Name string | Pos int

datatype part =
    Txt string
  | Num int
  | Lbl label
  | Labels "label set"
  | Keys "string list"
  | Shape "nat list"

type_synonym message = "part list"

datatype error =
    biogemeError message
  | ValueError message
  | KeyError label
  | KeyErrorNum real
  | AttributeError
  | IndexError
  | AxisError

section \<open>Arrays\<close>

text \<open>
  A numpy array is its shape and its entries, read by a full index. Entries outside
  the shape are never read by the operations below.
\<close>

record ndarray =
  shape :: "nat list"
  elems :: "nat list \<Rightarrow> real"

definition negate :: "ndarray \<Rightarrow> ndarray" where
  "negate a = a\<lparr>elems := (\<lambda>idx. - elems a idx)\<rparr>"

text \<open>
  \<open>np.concatenate((a, b), axis=1)\<close>: both arrays need a second axis, and all other
  axes must agree.
\<close>

definition concatenate_axis1 :: "ndarray \<Rightarrow> ndarray \<Rightarrow> error + ndarray" where
  "concatenate_axis1 a b =
     (if length (shape a) < 2 then Inl AxisError
      else if length (shape b) \<noteq> length (shape a)
              \<or> (shape b)[1 := 0] \<noteq> (shape a)[1 := 0]
        then Inl (ValueError [Txt ''all the input array dimensions except for the concatenation axis must match exactly''])
      else Inr \<lparr>shape = (shape a)[1 := shape a ! 1 + shape b ! 1],
                elems = (\<lambda>idx. if idx ! 1 < shape a ! 1 then elems a idx
                                else elems b (idx[1 := idx ! 1 - shape a ! 1]))\<rparr>)"

text \<open>
  \<open>np.array(xs)\<close> on a list of arrays of one common shape stacks them along a new
  first axis; on the empty list it is the one-dimensional array of shape \<open>(0,)\<close>.
\<close>

definition np_array :: "ndarray list \<Rightarrow> ndarray" where
  "np_array xs =
     (case xs of
        [] \<Rightarrow> \<lparr>shape = [0], elems = (\<lambda>idx. 0)\<rparr>
      | x # _ \<Rightarrow>
          \<lparr>shape = length xs # shape x,
           elems = (\<lambda>idx. case idx of
                             [] \<Rightarrow> 0
                           | v # rest \<Rightarrow> if v < length xs then elems (xs ! v) rest else 0)\<rparr>)"

text \<open>\<open>np.moveaxis(a, 0, -1)\<close>: the first axis becomes the last one.\<close>

definition moveaxis_0_last :: "ndarray \<Rightarrow> error + ndarray" where
  "moveaxis_0_last a =
     (case shape a of
        [] \<Rightarrow> Inl AxisError
      | n # ns \<Rightarrow>
          Inr \<lparr>shape = ns @ [n],
               elems = (\<lambda>idx. if idx = [] then elems a [] else elems a (last idx # butlast idx))\<rparr>)"

section \<open>The draw generators\<close>

text \<open>
  A generator takes the sample size and the number of draws and returns an array or
  raises. Generators draw from numpy's global random state, which is threaded through
  as a value of an arbitrary type \<open>'g\<close>.
\<close>

type_synonym 'g generator = "nat \<Rightarrow> int \<Rightarrow> 'g \<Rightarrow> (error + ndarray) \<times> 'g"

definition bindE ::
  "('g \<Rightarrow> (error + 'a) \<times> 'g) \<Rightarrow> ('a \<Rightarrow> 'g \<Rightarrow> (error + 'b) \<times> 'g) \<Rightarrow> 'g \<Rightarrow> (error + 'b) \<times> 'g"
where
  "bindE m f g = (case m g of (Inl e, g') \<Rightarrow> (Inl e, g') | (Inr x, g') \<Rightarrow> f x g')"

text \<open>
  The module \<open>biogeme.draws\<close> is not among the sources: its functions are parameters.
  Keyword arguments are positional here, in this order:
  \<open>getUniform sampleSize numberOfDraws symmetric\<close>,
  \<open>getAntithetic unif sampleSize numberOfDraws\<close>,
  \<open>getHaltonDraws sampleSize numberOfDraws symmetric base skip\<close>,
  \<open>getLatinHypercubeDraws sampleSize numberOfDraws symmetric\<close>,
  \<open>getNormalWichuraDraws sampleSize numberOfDraws uniformNumbers antithetic\<close>;
  an argument the source leaves out is \<open>False\<close> or \<open>None\<close>.
\<close>

record 'g draws =
  getUniform :: "nat \<Rightarrow> int \<Rightarrow> bool \<Rightarrow> 'g \<Rightarrow> (error + ndarray) \<times> 'g"
  getAntithetic :: "'g generator \<Rightarrow> nat \<Rightarrow> int \<Rightarrow> 'g \<Rightarrow> (error + ndarray) \<times> 'g"
  getHaltonDraws :: "nat \<Rightarrow> int \<Rightarrow> bool \<Rightarrow> nat \<Rightarrow> nat \<Rightarrow> 'g \<Rightarrow> (error + ndarray) \<times> 'g"
  getLatinHypercubeDraws :: "nat \<Rightarrow> int \<Rightarrow> bool \<Rightarrow> 'g \<Rightarrow> (error + ndarray) \<times> 'g"
  getNormalWichuraDraws ::
    "nat \<Rightarrow> int \<Rightarrow> ndarray option \<Rightarrow> bool \<Rightarrow> 'g \<Rightarrow> (error + ndarray) \<times> 'g"

text \<open>
  \<open>int(numberOfDraws / 2)\<close>: the quotient truncated towards zero (the float quotient is
  exact for every draw count below \<open>2^53\<close>).
\<close>

definition int_half :: "int \<Rightarrow> int" where
  "int_half r = (if 0 \<le> r then r div 2 else - ((- r) div 2))"

definition uniform_antithetic :: "'g draws \<Rightarrow> 'g generator" where
  "uniform_antithetic dm sampleSize numberOfDraws =
     getAntithetic dm (\<lambda>n r. getUniform dm n r False) sampleSize numberOfDraws"

definition halton2 :: "'g draws \<Rightarrow> 'g generator" where
  "halton2 dm sampleSize numberOfDraws = getHaltonDraws dm sampleSize numberOfDraws False 2 10"

definition halton3 :: "'g draws \<Rightarrow> 'g generator" where
  "halton3 dm sampleSize numberOfDraws = getHaltonDraws dm sampleSize numberOfDraws False 3 10"

definition halton5 :: "'g draws \<Rightarrow> 'g generator" where
  "halton5 dm sampleSize numberOfDraws = getHaltonDraws dm sampleSize numberOfDraws False 5 10"

definition MLHS_anti :: "'g draws \<Rightarrow> 'g generator" where
  "MLHS_anti dm sampleSize numberOfDraws =
     getAntithetic dm (\<lambda>n r. getLatinHypercubeDraws dm n r False) sampleSize numberOfDraws"

definition symm_uniform :: "'g draws \<Rightarrow> 'g generator" where
  "symm_uniform dm sampleSize numberOfDraws = getUniform dm sampleSize numberOfDraws True"

definition symm_uniform_antithetic :: "'g draws \<Rightarrow> 'g generator" where
  "symm_uniform_antithetic dm sampleSize numberOfDraws =
     bindE (symm_uniform dm sampleSize (int_half numberOfDraws))
       (\<lambda>localDraws g. (concatenate_axis1 localDraws (negate localDraws), g))"

definition symm_halton2 :: "'g draws \<Rightarrow> 'g generator" where
  "symm_halton2 dm sampleSize numberOfDraws =
     getHaltonDraws dm sampleSize numberOfDraws True 2 10"

definition symm_halton3 :: "'g draws \<Rightarrow> 'g generator" where
  "symm_halton3 dm sampleSize numberOfDraws =
     getHaltonDraws dm sampleSize numberOfDraws True 3 10"

definition symm_halton5 :: "'g draws \<Rightarrow> 'g generator" where
  "symm_halton5 dm sampleSize numberOfDraws =
     getHaltonDraws dm sampleSize numberOfDraws True 5 10"

definition symm_MLHS :: "'g draws \<Rightarrow> 'g generator" where
  "symm_MLHS dm sampleSize numberOfDraws =
     getLatinHypercubeDraws dm sampleSize numberOfDraws True"

definition symm_MLHS_anti :: "'g draws \<Rightarrow> 'g generator" where
  "symm_MLHS_anti dm sampleSize numberOfDraws =
     bindE (symm_MLHS dm sampleSize (int_half numberOfDraws))
       (\<lambda>localDraws g. (concatenate_axis1 localDraws (negate localDraws), g))"

definition normal_antithetic :: "'g draws \<Rightarrow> 'g generator" where
  "normal_antithetic dm sampleSize numberOfDraws =
     getNormalWichuraDraws dm sampleSize numberOfDraws None True"

definition normal_halton2 :: "'g draws \<Rightarrow> 'g generator" where
  "normal_halton2 dm sampleSize numberOfDraws =
     bindE (getHaltonDraws dm sampleSize numberOfDraws False 2 10)
       (\<lambda>unif. getNormalWichuraDraws dm sampleSize numberOfDraws (Some unif) False)"

definition normal_halton3 :: "'g draws \<Rightarrow> 'g generator" where
  "normal_halton3 dm sampleSize numberOfDraws =
     bindE (getHaltonDraws dm sampleSize numberOfDraws False 2 10)
       (\<lambda>unif. getNormalWichuraDraws dm sampleSize numberOfDraws (Some unif) False)"

definition normal_halton5 :: "'g draws \<Rightarrow> 'g generator" where
  "normal_halton5 dm sampleSize numberOfDraws =
     bindE (getHaltonDraws dm sampleSize numberOfDraws False 2 10)
       (\<lambda>unif. getNormalWichuraDraws dm sampleSize numberOfDraws (Some unif) False)"

definition normal_MLHS :: "'g draws \<Rightarrow> 'g generator" where
  "normal_MLHS dm sampleSize numberOfDraws =
     bindE (getLatinHypercubeDraws dm sampleSize numberOfDraws False)
       (\<lambda>unif. getNormalWichuraDraws dm sampleSize numberOfDraws (Some unif) False)"

definition normal_MLHS_anti :: "'g draws \<Rightarrow> 'g generator" where
  "normal_MLHS_anti dm sampleSize numberOfDraws =
     bindE (getLatinHypercubeDraws dm sampleSize (int_half numberOfDraws) False)
       (\<lambda>unif. getNormalWichuraDraws dm sampleSize numberOfDraws (Some unif) True)"

text \<open>
  The dictionary of native generators, in the order of the source: name, generator,
  description.
\<close>

definition initNativeRandomNumberGenerators ::
  "'g draws \<Rightarrow> (string \<times> 'g generator \<times> string) list"
where
  "initNativeRandomNumberGenerators dm =
     [(''UNIFORM'', (\<lambda>n r. getUniform dm n r False), ''Uniform U[0, 1]''),
      (''UNIFORM_ANTI'', uniform_antithetic dm, ''Antithetic uniform U[0, 1]''),
      (''UNIFORM_HALTON2'', halton2 dm, ''Halton draws with base 2, skipping the first 10''),
      (''UNIFORM_HALTON3'', halton3 dm, ''Halton draws with base 3, skipping the first 10''),
      (''UNIFORM_HALTON5'', halton5 dm, ''Halton draws with base 5, skipping the first 10''),
      (''UNIFORM_MLHS'', (\<lambda>n r. getLatinHypercubeDraws dm n r False),
         ''Modified Latin Hypercube Sampling on [0, 1]''),
      (''UNIFORM_MLHS_ANTI'', MLHS_anti dm,
         ''Antithetic Modified Latin Hypercube Sampling on [0, 1]''),
      (''UNIFORMSYM'', symm_uniform dm, ''Uniform U[-1, 1]''),
      (''UNIFORMSYM_ANTI'', symm_uniform_antithetic dm, ''Antithetic uniform U[-1, 1]''),
      (''UNIFORMSYM_HALTON2'', symm_halton2 dm,
         ''Halton draws on [-1, 1] with base 2, skipping the first 10''),
      (''UNIFORMSYM_HALTON3'', symm_halton3 dm,
         ''Halton draws on [-1, 1] with base 3, skipping the first 10''),
      (''UNIFORMSYM_HALTON5'', symm_halton5 dm,
         ''Halton draws on [-1, 1] with base 5, skipping the first 10''),
      (''UNIFORMSYM_MLHS'', symm_MLHS dm, ''Modified Latin Hypercube Sampling on [-1, 1]''),
      (''UNIFORMSYM_MLHS_ANTI'', symm_MLHS_anti dm,
         ''Antithetic Modified Latin Hypercube Sampling on [-1, 1]''),
      (''NORMAL'', (\<lambda>n r. getNormalWichuraDraws dm n r None False), ''Normal N(0, 1) draws''),
      (''NORMAL_ANTI'', normal_antithetic dm, ''Antithetic normal draws''),
      (''NORMAL_HALTON2'', normal_halton2 dm, ''Normal draws from Halton base 2 sequence''),
      (''NORMAL_HALTON3'', normal_halton3 dm, ''Normal draws from Halton base 3 sequence''),
      (''NORMAL_HALTON5'', normal_halton5 dm, ''Normal draws from Halton base 5 sequence''),
      (''NORMAL_MLHS'', normal_MLHS dm, ''Normal draws from Modified Latin Hypercube Sampling''),
      (''NORMAL_MLHS_ANTI'', normal_MLHS_anti dm,
         ''Antithetic normal draws from Modified Latin Hypercube Sampling'')]"

text \<open>
  A concrete module to run the generators on: every array is filled with one number
  that tells where it comes from. A Halton array holds its base, the normal transform
  passes the uniform numbers it is given through, and nothing is random.
\<close>

definition filled :: "nat \<Rightarrow> int \<Rightarrow> real \<Rightarrow> ndarray" where
  "filled n r x = \<lparr>shape = [n, nat r], elems = (\<lambda>idx. x)\<rparr>"

definition echo_draws :: "unit draws" where
  "echo_draws =
     \<lparr>getUniform = (\<lambda>n r sym g. (Inr (filled n r 0), g)),
      getAntithetic = (\<lambda>unif n r g. unif n r g),
      getHaltonDraws = (\<lambda>n r sym base skip g. (Inr (filled n r (real base)), g)),
      getLatinHypercubeDraws = (\<lambda>n r sym g. (Inr (filled n r 1), g)),
      getNormalWichuraDraws =
        (\<lambda>n r unif anti g. (Inr (case unif of None \<Rightarrow> filled n r 0 | Some u \<Rightarrow> u), g))\<rparr>"

section \<open>Frames and the database\<close>

text \<open>
  A pandas frame: the column labels in order, the row labels (the index) in order, and
  the rows, each one the list of its cells in column order. All cells are numbers, which
  is what the audit of the constructor demands of the data.
\<close>

record frame =
  columns :: "label list"
  index :: "real list"
  cells :: "real list list"

definition nrows :: "frame \<Rightarrow> nat" where
  "nrows df = length (cells df)"

definition wf_frame :: "frame \<Rightarrow> bool" where
  "wf_frame df =
     (length (index df) = length (cells df)
      \<and> list_all (\<lambda>row. length row = length (columns df)) (cells df))"

text \<open>
  The database object and the frames it refers to. Frames are objects with identity:
  \<open>heap\<close> holds them, and the attributes \<open>data\<close>, \<open>fullData\<close>, \<open>individualMap\<close> and
  \<open>fullIndividualMap\<close> are references into it (\<open>None\<close> is Python's \<open>None\<close>). The
  logger and the evaluator slots \<open>_avail\<close>, \<open>_choice\<close>, \<open>_expression\<close>, which every
  method sets before it reads them, are left out.
\<close>

record 'g Database =
  name :: string
  heap :: "frame list"
  data :: nat
  fullData :: "nat option"
  variables :: "label list"
  excludedData :: nat
  panelColumn :: "label option"
  individualMap :: "nat option"
  fullIndividualMap :: "nat option"
  nativeRandomNumberGenerators :: "(string \<times> 'g generator \<times> string) list"
  userRandomNumberGenerators :: "(string \<times> 'g generator \<times> string) list"
  numberOfDraws :: int
  typesOfDraws :: "string \<rightharpoonup> string"
  auditDone :: bool
  theDraws :: "ndarray option"

text \<open>
  The constructor. The frame handed in becomes the one object that both \<open>data\<close> and
  \<open>fullData\<close> refer to. The audit rejects columns that are not numeric and missing
  values; cells of type \<open>real\<close> are neither, so it finds nothing and the constructor
  returns.
\<close>

definition init :: "'g draws \<Rightarrow> string \<Rightarrow> frame \<Rightarrow> 'g Database" where
  "init dm nm pandasDatabase =
     \<lparr>name = nm,
      heap = [pandasDatabase],
      data = 0,
      fullData = Some 0,
      variables = columns pandasDatabase,
      excludedData = 0,
      panelColumn = None,
      individualMap = None,
      fullIndividualMap = None,
      nativeRandomNumberGenerators = initNativeRandomNumberGenerators dm,
      userRandomNumberGenerators = [],
      numberOfDraws = 0,
      typesOfDraws = Map.empty,
      auditDone = True,
      theDraws = None\<rparr>"

definition isPanel :: "'g Database \<Rightarrow> bool" where
  "isPanel st = (panelColumn st \<noteq> None)"

definition getSampleSize :: "'g Database \<Rightarrow> error + nat" where
  "getSampleSize st =
     (if isPanel st then
        (case individualMap st of
           None \<Rightarrow> Inl AttributeError
         | Some a \<Rightarrow> Inr (nrows (heap st ! a)))
      else Inr (nrows (heap st ! data st)))"

section \<open>Registering and resolving generators\<close>

definition setRandomNumberGenerators ::
  "(string \<times> 'g generator \<times> string) list \<Rightarrow> 'g Database \<Rightarrow> error + 'g Database"
where
  "setRandomNumberGenerators rng st =
     (case find (\<lambda>k. k \<in> set (map fst rng)) (map fst (nativeRandomNumberGenerators st)) of
        Some k \<Rightarrow>
          Inl (ValueError
                [Txt k, Txt '' is a reserved keyword for draws'',
                 Txt '' and cannot be used for user-defined '', Txt ''generators''])
      | None \<Rightarrow> Inr (st\<lparr>userRandomNumberGenerators := rng\<rparr>))"

text \<open>
  The lookup of \<open>generateDraws\<close>: the native dictionary first, the user dictionary when
  the native one has no such key.
\<close>

definition theGenerator :: "'g Database \<Rightarrow> string \<Rightarrow> ('g generator \<times> string) option" where
  "theGenerator st drawType =
     (case map_of (nativeRandomNumberGenerators st) drawType of
        Some e \<Rightarrow> Some e
      | None \<Rightarrow> map_of (userRandomNumberGenerators st) drawType)"

text \<open>
  The loop of \<open>generateDraws\<close> over the names, with the arrays generated so far. The
  type of draws is recorded before the generator is looked up, so it stays recorded
  when the call raises.
\<close>

fun generateDraws_loop ::
  "(string \<rightharpoonup> string) \<Rightarrow> int \<Rightarrow> string list \<Rightarrow> ndarray list \<Rightarrow> 'g \<Rightarrow> 'g Database
     \<Rightarrow> (error + ndarray list) \<times> 'g Database \<times> 'g"
where
  "generateDraws_loop types nDraws [] listOfDraws g st = (Inr listOfDraws, st, g)"
| "generateDraws_loop types nDraws (v # vs) listOfDraws g st =
     (case types v of
        None \<Rightarrow> (Inl (KeyError (Name v)), st, g)
      | Some drawType \<Rightarrow>
          (let st1 = st\<lparr>typesOfDraws := (typesOfDraws st)(v \<mapsto> drawType)\<rparr> in
           case theGenerator st1 drawType of
             None \<Rightarrow>
               (Inl (biogemeError
                      [Txt ''Unknown type of draws for '', Txt ''variable '', Txt v, Txt '': '',
                       Txt drawType, Txt ''. '', Txt ''Native types: '',
                       Keys (map fst (nativeRandomNumberGenerators st1)), Txt ''. '',
                       Txt ''User defined: '', Keys (map fst (userRandomNumberGenerators st1))]),
                st1, g)
           | Some (gen, description) \<Rightarrow>
               (case getSampleSize st1 of
                  Inl e \<Rightarrow> (Inl e, st1, g)
                | Inr n \<Rightarrow>
                    (case gen n nDraws g of
                       (Inl e, g1) \<Rightarrow> (Inl e, st1, g1)
                     | (Inr a, g1) \<Rightarrow>
                         if map int (shape a) \<noteq> [int n, nDraws] then
                           (Inl (biogemeError
                                  [Txt ''The draw generator for '', Txt v, Txt '' must'',
                                   Txt '' generate a numpy array of dimensions'', Txt '' ('',
                                   Num (int n), Txt '', '', Num nDraws, Txt '')'',
                                   Txt '' instead of '', Shape (shape a)]),
                            st1, g1)
                         else generateDraws_loop types nDraws vs (listOfDraws @ [a]) g1 st1))))"

definition generateDraws ::
  "(string \<rightharpoonup> string) \<Rightarrow> string list \<Rightarrow> int \<Rightarrow> 'g \<Rightarrow> 'g Database
     \<Rightarrow> (error + ndarray) \<times> 'g Database \<times> 'g"
where
  "generateDraws types names nDraws g st =
     (case generateDraws_loop types nDraws names [] g (st\<lparr>numberOfDraws := nDraws\<rparr>) of
        (Inl e, st1, g1) \<Rightarrow> (Inl e, st1, g1)
      | (Inr listOfDraws, st1, g1) \<Rightarrow>
          (let stacked = np_array listOfDraws in
           case moveaxis_0_last stacked of
             Inl e \<Rightarrow> (Inl e, st1\<lparr>theDraws := Some stacked\<rparr>, g1)
           | Inr moved \<Rightarrow> (Inr moved, st1\<lparr>theDraws := Some moved\<rparr>, g1)))"

text \<open>
  The arrays that the generators of a list of names return when they are called in
  list order with sample size \<open>n\<close> and \<open>r\<close> draws, from the random state \<open>g\<close> on, and
  the random state they leave; \<open>None\<close> when a name has no generator or a generator
  raises.
\<close>

fun produced ::
  "'g Database \<Rightarrow> (string \<rightharpoonup> string) \<Rightarrow> nat \<Rightarrow> int \<Rightarrow> string list \<Rightarrow> 'g
     \<Rightarrow> (ndarray list \<times> 'g) option"
where
  "produced st types n r [] g = Some ([], g)"
| "produced st types n r (v # vs) g =
     (case types v of
        None \<Rightarrow> None
      | Some drawType \<Rightarrow>
          (case theGenerator st drawType of
             None \<Rightarrow> None
           | Some (gen, description) \<Rightarrow>
               (case gen n r g of
                  (Inl e, g1) \<Rightarrow> None
                | (Inr a, g1) \<Rightarrow>
                    (case produced st types n r vs g1 of
                       None \<Rightarrow> None
                     | Some (ds, g2) \<Rightarrow> Some (a # ds, g2)))))"

text \<open>
  A small database to run the operations on: two columns, three rows, and the module
  that echoes where its arrays come from.
\<close>

definition demo_frame :: frame where
  "demo_frame =
     \<lparr>columns = [Name ''id'', Name ''x''],
      index = [0, 1, 2],
      cells = [[1, 10], [1, 20], [2, 30]]\<rparr>"

definition demo_db :: "unit Database" where
  "demo_db = init echo_draws ''demo'' demo_frame"

definition demo_generator :: "unit generator" where
  "demo_generator n r g = (Inr (filled n r 7), g)"

text \<open>
  Two states agree on what \<open>generateDraws\<close> reads: both dictionaries of generators
  and the sample size.
\<close>

definition same_env :: "'g Database \<Rightarrow> 'g Database \<Rightarrow> bool" where
  "same_env st st0 =
     (nativeRandomNumberGenerators st = nativeRandomNumberGenerators st0
      \<and> userRandomNumberGenerators st = userRandomNumberGenerators st0
      \<and> getSampleSize st = getSampleSize st0)"

text \<open>
  The name \<open>v\<close> has a type of draws, the type resolves to a generator, and the generator
  returns, from every random state, an array of \<open>n\<close> rows and \<open>r\<close> columns.
\<close>

definition well_behaved ::
  "'g Database \<Rightarrow> (string \<rightharpoonup> string) \<Rightarrow> nat \<Rightarrow> int \<Rightarrow> string \<Rightarrow> bool" where
  "well_behaved st types n r v =
     (\<exists>drawType gen description.
        types v = Some drawType \<and> theGenerator st drawType = Some (gen, description)
        \<and> (\<forall>g. \<exists>a g1. gen n r g = (Inr a, g1) \<and> map int (shape a) = [int n, r]))"

section \<open>Panel data\<close>

text \<open>
  \<open>df[c]\<close>: the cells of the column labelled \<open>c\<close>, from the first row to the last, or a
  \<open>KeyError\<close>. The column labels of a frame are taken to be distinct.
\<close>

fun position :: "'a \<Rightarrow> 'a list \<Rightarrow> nat option" where
  "position c [] = None"
| "position c (x # xs) = (if x = c then Some 0 else map_option Suc (position c xs))"

definition col_values :: "frame \<Rightarrow> label \<Rightarrow> error + real list" where
  "col_values df c =
     (case position c (columns df) of
        None \<Rightarrow> Inl (KeyError c)
      | Some j \<Rightarrow> Inr (map (\<lambda>row. row ! j) (cells df)))"

text \<open>
  Modelled from the spec: \<open>tools.countNumberOfGroups\<close> is not among the sources. The
  spec has it count the contiguous runs of equal value in the grouping column;
  \<open>count_runs\<close> counts the runs of a list.
\<close>

fun count_runs :: "'a list \<Rightarrow> nat" where
  "count_runs [] = 0"
| "count_runs [x] = 1"
| "count_runs (x # y # ys) = (if x = y then 0 else 1) + count_runs (y # ys)"

text \<open>
  Modelled from the spec: \<open>tools.countNumberOfGroups(df, column)\<close>, the number of runs
  of the column, or the \<open>KeyError\<close> of a column that the frame does not have.
\<close>

definition countNumberOfGroups :: "frame \<Rightarrow> label \<Rightarrow> error + nat" where
  "countNumberOfGroups df c = map_sum id count_runs (col_values df c)"

text \<open>
  \<open>df.sort_values(by=c)\<close> returns a new frame, the rows of \<open>df\<close> in an order that sorts
  column \<open>c\<close>. The source does not ask for a particular algorithm, so the order of rows
  with equal keys is the algorithm's: \<open>argsort\<close> maps the keys to the positions of the
  rows in their new order, and \<open>valid_argsort\<close> says that it sorts.
\<close>

definition sort_values :: "(real list \<Rightarrow> nat list) \<Rightarrow> frame \<Rightarrow> label \<Rightarrow> error + frame" where
  "sort_values argsort df c =
     (case col_values df c of
        Inl e \<Rightarrow> Inl e
      | Inr ks \<Rightarrow>
          Inr \<lparr>columns = columns df,
               index = map (\<lambda>p. index df ! p) (argsort ks),
               cells = map (\<lambda>p. cells df ! p) (argsort ks)\<rparr>)"

definition valid_argsort :: "(real list \<Rightarrow> nat list) \<Rightarrow> bool" where
  "valid_argsort argsort =
     (\<forall>ks. mset (argsort ks) = mset [0..<length ks]
           \<and> sorted (map (\<lambda>p. ks ! p) (argsort ks)))"

text \<open>A stable sort: rows with equal keys keep their order.\<close>

definition stable_argsort :: "real list \<Rightarrow> nat list" where
  "stable_argsort ks = map fst (sort_key snd (enumerate 0 ks))"


text \<open>\<open>Series.unique()\<close>: the distinct values in the order of their first appearance.\<close>

fun unique :: "'a list \<Rightarrow> 'a list" where
  "unique [] = []"
| "unique (x # xs) = x # unique (filter (\<lambda>y. y \<noteq> x) xs)"

definition py_min :: "real list \<Rightarrow> error + real" where
  "py_min xs =
     (if xs = [] then Inl (ValueError [Txt ''min() arg is an empty sequence''])
      else Inr (Min (set xs)))"

definition py_max :: "real list \<Rightarrow> error + real" where
  "py_max xs =
     (if xs = [] then Inl (ValueError [Txt ''max() arg is an empty sequence''])
      else Inr (Max (set xs)))"

text \<open>
  The loop of \<open>buildPanelMap\<close> over the individuals: \<open>idx\<close> is the index of the data and
  \<open>ks\<close> its grouping column; \<open>local_map\<close> is a dictionary, so an assignment to a key it
  has replaces the value in place and an assignment to a new key comes last.
\<close>

fun local_map_loop ::
  "real list \<Rightarrow> real list \<Rightarrow> real list \<Rightarrow> (real \<times> real list) list
     \<Rightarrow> error + (real \<times> real list) list"
where
  "local_map_loop idx ks [] local_map = Inr local_map"
| "local_map_loop idx ks (i # individuals) local_map =
     (let indices = map fst (filter (\<lambda>(l, k). k = i) (zip idx ks)) in
      case py_min indices of
        Inl e \<Rightarrow> Inl e
      | Inr lo \<Rightarrow>
          (case py_max indices of
             Inl e \<Rightarrow> Inl e
           | Inr hi \<Rightarrow>
               local_map_loop idx ks individuals (AList.update i [lo, hi] local_map)))"

text \<open>
  \<open>pd.DataFrame(local_map).T\<close>: one row per key, in the order of the dictionary, and the
  columns \<open>0\<close> and \<open>1\<close>; the frame of the empty dictionary has no columns.
\<close>

definition frame_of_local_map :: "(real \<times> real list) list \<Rightarrow> frame" where
  "frame_of_local_map local_map =
     \<lparr>columns = (if local_map = [] then [] else [Pos 0, Pos 1]),
      index = map fst local_map,
      cells = map snd local_map\<rparr>"

definition buildPanelMap ::
  "(real list \<Rightarrow> nat list) \<Rightarrow> 'g Database \<Rightarrow> (error + unit) \<times> 'g Database"
where
  "buildPanelMap argsort st =
     (case panelColumn st of
        None \<Rightarrow> (Inr (), st)
      | Some c \<Rightarrow>
          (case sort_values argsort (heap st ! data st) c of
             Inl e \<Rightarrow> (Inl e, st)
           | Inr sortedData \<Rightarrow>
               (let renumbered = sortedData\<lparr>index := map real [0..<length (index sortedData)]\<rparr>;
                    st1 = st\<lparr>heap := heap st @ [renumbered], data := length (heap st)\<rparr>
                in case col_values renumbered c of
                     Inl e \<Rightarrow> (Inl e, st1)
                   | Inr ks \<Rightarrow>
                       (case local_map_loop (index renumbered) ks (unique ks) [] of
                          Inl e \<Rightarrow> (Inl e, st1)
                        | Inr local_map \<Rightarrow>
                            (Inr (),
                             st1\<lparr>heap := heap st1 @ [frame_of_local_map local_map],
                                 individualMap := Some (length (heap st1)),
                                 fullIndividualMap := Some (length (heap st1))\<rparr>)))))"

definition panel ::
  "(real list \<Rightarrow> nat list) \<Rightarrow> label \<Rightarrow> 'g Database \<Rightarrow> (error + unit) \<times> 'g Database"
where
  "panel argsort columnName st =
     (let st1 = st\<lparr>panelColumn := Some columnName\<rparr> in
      case countNumberOfGroups (heap st1 ! data st1) columnName of
        Inl e \<Rightarrow> (Inl e, st1)
      | Inr nGroups \<Rightarrow>
          (case sort_values argsort (heap st1 ! data st1) columnName of
             Inl e \<Rightarrow> (Inl e, st1)
           | Inr sortedData \<Rightarrow>
               (case countNumberOfGroups sortedData columnName of
                  Inl e \<Rightarrow> (Inl e, st1)
                | Inr nIndividuals \<Rightarrow>
                    if nGroups \<noteq> nIndividuals then
                      (Inl (biogemeError
                             [Txt ''The data must be sorted so that the data'',
                              Txt '' for the same individual are consecutive.'',
                              Txt '' There are '', Num (int nIndividuals), Txt '' individuals '',
                              Txt ''in the sample, and '', Num (int nGroups), Txt '' groups of '',
                              Txt ''data for column '', Lbl columnName, Txt ''.'']),
                       st1)
                    else buildPanelMap argsort st1)))"


text \<open>A frame with the single column \<open>id\<close> and the default index.\<close>

definition ids_frame :: "real list \<Rightarrow> frame" where
  "ids_frame ks =
     \<lparr>columns = [Name ''id''],
      index = map real [0..<length ks],
      cells = map (\<lambda>k. [k]) ks\<rparr>"

text \<open>
  The range of row positions that a value takes in a sorted list, by counting: it starts
  after the entries below the value and holds as many positions as the value has
  entries. \<open>panel_ranges\<close> lists the values of a sorted list in the order of their first
  appearance, each with its range.
\<close>

definition count_below :: "real list \<Rightarrow> real \<Rightarrow> nat" where
  "count_below s i = length (filter (\<lambda>y. y < i) s)"

definition count_equal :: "real list \<Rightarrow> real \<Rightarrow> nat" where
  "count_equal s i = length (filter (\<lambda>y. y = i) s)"

definition range_of :: "real list \<Rightarrow> real \<Rightarrow> nat \<times> nat" where
  "range_of s i = (count_below s i, count_below s i + count_equal s i - 1)"

definition panel_ranges :: "real list \<Rightarrow> (real \<times> real list) list" where
  "panel_ranges s = map (\<lambda>i. (i, [real (fst (range_of s i)), real (snd (range_of s i))])) (unique s)"

section \<open>Evaluating expressions on rows\<close>

text \<open>
  A row handed to an expression: its index label and its cells, each with the label of
  its column. The expression engine is not among the sources: an expression is a
  function of the row that returns a number or raises. \<open>data.apply(f, axis=1)\<close> calls it
  on the rows from the first to the last, and the first error ends the call.
\<close>

type_synonym row = "real \<times> (label \<times> real) list"

type_synonym expression = "row \<Rightarrow> error + real"

definition rows_of :: "frame \<Rightarrow> row list" where
  "rows_of df = map (\<lambda>(l, cs). (l, zip (columns df) cs)) (zip (index df) (cells df))"

fun apply_rows :: "(row \<Rightarrow> error + 'a) \<Rightarrow> row list \<Rightarrow> error + 'a list" where
  "apply_rows f [] = Inr []"
| "apply_rows f (r # rs) =
     (case f r of
        Inl e \<Rightarrow> Inl e
      | Inr v \<Rightarrow> (case apply_rows f rs of Inl e \<Rightarrow> Inl e | Inr vs \<Rightarrow> Inr (v # vs)))"

text \<open>
  \<open>df[c] = vs\<close>, in place: a new column comes last, an existing one gets the new cells.
\<close>

definition df_setitem :: "frame \<Rightarrow> label \<Rightarrow> real list \<Rightarrow> frame" where
  "df_setitem df c vs =
     (case position c (columns df) of
        None \<Rightarrow> df\<lparr>columns := columns df @ [c],
                   cells := map (\<lambda>(row, v). row @ [v]) (zip (cells df) vs)\<rparr>
      | Some j \<Rightarrow> df\<lparr>cells := map (\<lambda>(row, v). row[j := v]) (zip (cells df) vs)\<rparr>)"

text \<open>\<open>df.drop(labels, inplace=True)\<close>: every row whose index label is listed goes.\<close>

definition df_drop_rows :: "real list \<Rightarrow> frame \<Rightarrow> frame" where
  "df_drop_rows labels df =
     df\<lparr>index := map fst (filter (\<lambda>(l, row). l \<notin> set labels) (zip (index df) (cells df))),
        cells := map snd (filter (\<lambda>(l, row). l \<notin> set labels) (zip (index df) (cells df)))\<rparr>"

text \<open>\<open>df.drop(columns=[c], inplace=True)\<close> on a frame that has the column.\<close>

definition df_drop_column :: "label \<Rightarrow> frame \<Rightarrow> frame" where
  "df_drop_column c df =
     df\<lparr>columns := filter (\<lambda>c'. c' \<noteq> c) (columns df),
        cells := map (\<lambda>row. map snd (filter (\<lambda>(c', v). c' \<noteq> c) (zip (columns df) row)))
                   (cells df)\<rparr>"

section \<open>Changing the data\<close>

text \<open>
  \<open>scaleColumn\<close> multiplies in place. The cells are real numbers here: the wrap-around
  of a column of machine integers and the rounding of floats are not modelled, and
  nothing below depends on the products.
\<close>

definition scaleColumn :: "label \<Rightarrow> real \<Rightarrow> 'g Database \<Rightarrow> error + 'g Database" where
  "scaleColumn column scale st =
     (case col_values (heap st ! data st) column of
        Inl e \<Rightarrow> Inl e
      | Inr vs \<Rightarrow>
          Inr (st\<lparr>heap := (heap st)[data st :=
                   df_setitem (heap st ! data st) column (map (\<lambda>v. v * scale) vs)]\<rparr>))"

text \<open>
  \<open>variables\<close> is the dictionary of the handles of the columns, kept as the list of its
  keys: assigning to a key it has changes nothing, a new key comes last.
\<close>

definition addColumn ::
  "expression \<Rightarrow> label \<Rightarrow> 'g Database \<Rightarrow> error + (real list \<times> 'g Database)"
where
  "addColumn expr column st =
     (if column \<in> set (columns (heap st ! data st)) then
        Inl (ValueError [Txt ''Column '', Lbl column, Txt '' already exists in the database '',
                         Txt (name st)])
      else
        (case apply_rows expr (rows_of (heap st ! data st)) of
           Inl e \<Rightarrow> Inl e
         | Inr vs \<Rightarrow>
             Inr (vs,
                  st\<lparr>heap := (heap st)[data st := df_setitem (heap st ! data st) column vs],
                     variables := (if column \<in> set (variables st) then variables st
                                   else variables st @ [column])\<rparr>)))"

text \<open>
  The argument of \<open>remove\<close> is a plain number, which \<open>isNumeric\<close> recognises and
  \<open>Numeric\<close> wraps into the expression of that value, or an expression.
\<close>

datatype remove_arg = Number real | Expression expression

fun as_expression :: "remove_arg \<Rightarrow> expression" where
  "as_expression (Number v) = (\<lambda>r. Inr v)"
| "as_expression (Expression e) = e"

definition remove :: "remove_arg \<Rightarrow> 'g Database \<Rightarrow> error + 'g Database" where
  "remove x st =
     (let columnName = Name ''__bioRemove__'' in
      case addColumn (as_expression x) columnName st of
        Inl e \<Rightarrow> Inl e
      | Inr (added, st1) \<Rightarrow>
          (case col_values (heap st1 ! data st1) columnName of
             Inl e \<Rightarrow> Inl e
           | Inr flags \<Rightarrow>
               (let df = heap st1 ! data st1;
                    labels = map fst (filter (\<lambda>(l, v). v \<noteq> 0) (zip (index df) flags))
                in Inr (st1\<lparr>excludedData := length labels,
                           heap := (heap st1)[data st1 :=
                              df_drop_column columnName (df_drop_rows labels df)]\<rparr>))))"

section \<open>Sampling\<close>

text \<open>
  \<open>df.sample(frac=fraction, weights=weights)\<close> returns a new frame with the columns of \<open>df\<close>
  and the rows that the random choice picks; \<open>picks\<close> is the outcome of that choice,
  the positions of the rows in the order drawn. Of pandas' checks, those of the
  fraction and of the name of the weight column are modelled.
\<close>

definition df_iloc :: "frame \<Rightarrow> nat list \<Rightarrow> frame" where
  "df_iloc df ps =
     \<lparr>columns = columns df,
      index = map (\<lambda>p. index df ! p) ps,
      cells = map (\<lambda>p. cells df ! p) ps\<rparr>"

definition df_sample :: "nat list \<Rightarrow> real \<Rightarrow> label option \<Rightarrow> frame \<Rightarrow> error + frame" where
  "df_sample picks fraction weights df =
     (case (case weights of
              None \<Rightarrow> None
            | Some w \<Rightarrow> if w \<in> set (columns df) then None else Some w) of
        Some w \<Rightarrow> Inl (KeyError w)
      | None \<Rightarrow>
          if fraction < 0 then
            Inl (ValueError [Txt ''A negative number of rows requested. Please provide `n` >= 0.''])
          else if 1 < fraction then
            Inl (ValueError
                  [Txt ''Replace has to be set to `True` when upsampling the population `frac` > 1.''])
          else Inr (df_iloc df (filter (\<lambda>p. p < length (index df) \<and> p < length (cells df)) picks)))"

definition drift_message :: "label set \<Rightarrow> label set \<Rightarrow> message" where
  "drift_message full current =
     [Txt ''The structure of the database has been modified since last sample. '']
     @ (if full - current \<noteq> {} then [Txt '' Columns that disappeared: '', Labels (full - current)]
        else [])
     @ (if current - full \<noteq> {} then [Txt '' Columns that were added: '', Labels (current - full)]
        else [])"

definition sampleWithoutReplacement ::
  "real \<Rightarrow> label option \<Rightarrow> nat list \<Rightarrow> 'g Database \<Rightarrow> (error + unit) \<times> 'g Database"
where
  "sampleWithoutReplacement samplingRate columnWithSamplingWeights picks st =
     (if isPanel st then
        (case (case fullIndividualMap st of
                 None \<Rightarrow> Inr (st\<lparr>fullIndividualMap := individualMap st\<rparr>)
               | Some f \<Rightarrow>
                   (case individualMap st of
                      None \<Rightarrow> Inl AttributeError
                    | Some w \<Rightarrow>
                        if set (columns (heap st ! f)) \<noteq> set (columns (heap st ! w)) then
                          Inl (biogemeError
                                (drift_message (set (columns (heap st ! f)))
                                   (set (columns (heap st ! w)))))
                        else Inr st)) of
           Inl e \<Rightarrow> (Inl e, st)
         | Inr st1 \<Rightarrow>
             (case fullIndividualMap st1 of
                None \<Rightarrow> (Inl AttributeError, st1)
              | Some f \<Rightarrow>
                  (case df_sample picks samplingRate columnWithSamplingWeights (heap st1 ! f) of
                     Inl e \<Rightarrow> (Inl e, st1)
                   | Inr sampled \<Rightarrow>
                       (Inr (), st1\<lparr>heap := heap st1 @ [sampled],
                                    individualMap := Some (length (heap st1))\<rparr>))))
      else
        (case (case fullData st of
                 None \<Rightarrow> Inr (st\<lparr>fullData := Some (data st)\<rparr>)
               | Some f \<Rightarrow>
                   if set (columns (heap st ! f)) \<noteq> set (columns (heap st ! data st)) then
                     Inl (biogemeError
                           (drift_message (set (columns (heap st ! f)))
                              (set (columns (heap st ! data st)))))
                   else Inr st) of
           Inl e \<Rightarrow> (Inl e, st)
         | Inr st1 \<Rightarrow>
             (case fullData st1 of
                None \<Rightarrow> (Inl AttributeError, st1)
              | Some f \<Rightarrow>
                  (case df_sample picks samplingRate columnWithSamplingWeights (heap st1 ! f) of
                     Inl e \<Rightarrow> (Inl e, st1)
                   | Inr sampled \<Rightarrow>
                       (Inr (), st1\<lparr>heap := heap st1 @ [sampled],
                                    data := length (heap st1)\<rparr>)))))"

definition useFullSample :: "'g Database \<Rightarrow> error + 'g Database" where
  "useFullSample st =
     (if isPanel st then
        (case fullIndividualMap st of
           None \<Rightarrow> Inl (biogemeError [Txt ''Full panel data set has not been saved.''])
         | Some f \<Rightarrow> Inr (st\<lparr>individualMap := Some f\<rparr>))
      else
        (case fullData st of
           None \<Rightarrow> Inl (biogemeError [Txt ''Full data set has not been saved.''])
         | Some f \<Rightarrow> Inr (st\<lparr>data := f\<rparr>)))"

text \<open>Calls of \<open>sampleWithoutReplacement\<close> without weights, one after the other.\<close>

fun sample_calls :: "(real \<times> nat list) list \<Rightarrow> 'g Database \<Rightarrow> (error + unit) \<times> 'g Database" where
  "sample_calls [] st = (Inr (), st)"
| "sample_calls ((r, picks) # calls) st =
     (case sampleWithoutReplacement r None picks st of
        (Inl e, st1) \<Rightarrow> (Inl e, st1)
      | (Inr u, st1) \<Rightarrow> sample_calls calls st1)"

text \<open>
  The working copy: the individual map in panel mode, the data otherwise.
\<close>

definition working_copy :: "'g Database \<Rightarrow> frame option" where
  "working_copy st =
     (if isPanel st then map_option (\<lambda>a. heap st ! a) (individualMap st)
      else Some (heap st ! data st))"

text \<open>
  A database before its first sampling call: the full copy is not saved yet, or it is
  the very frame that is the working copy. The constructor and \<open>panel\<close> leave the
  database so.
\<close>

definition presample :: "'g Database \<Rightarrow> bool" where
  "presample st =
     (if isPanel st then
        (\<exists>w. individualMap st = Some w \<and> w < length (heap st)
              \<and> (fullIndividualMap st = None \<or> fullIndividualMap st = Some w))
      else
        data st < length (heap st) \<and> (fullData st = None \<or> fullData st = Some (data st)))"

text \<open>
  A database between sampling calls: the saved full copy is the frame \<open>F\<close>, and the
  working copy has the columns of \<open>F\<close>.
\<close>

definition sampled_from :: "frame \<Rightarrow> 'g Database \<Rightarrow> bool" where
  "sampled_from F st =
     (if isPanel st then
        (\<exists>f w. fullIndividualMap st = Some f \<and> individualMap st = Some w
               \<and> f < length (heap st) \<and> w < length (heap st)
               \<and> heap st ! f = F \<and> columns (heap st ! w) = columns F)
      else
        (\<exists>f. fullData st = Some f \<and> f < length (heap st) \<and> data st < length (heap st)
             \<and> heap st ! f = F \<and> columns (heap st ! data st) = columns F))"

section \<open>Estimation and validation sets\<close>

text \<open>
  \<open>np.array_split(df, slices)\<close> cuts the rows of a frame into \<open>slices\<close> consecutive
  blocks: with \<open>N\<close> rows, the first \<open>N mod slices\<close> blocks have \<open>N div slices + 1\<close> rows
  and the others \<open>N div slices\<close>. It refuses a number of slices that is not positive.
\<close>

definition split_sizes :: "nat \<Rightarrow> nat \<Rightarrow> nat list" where
  "split_sizes N k = replicate (N mod k) (N div k + 1) @ replicate (k - N mod k) (N div k)"

fun chunks :: "nat list \<Rightarrow> 'a list \<Rightarrow> 'a list list" where
  "chunks [] xs = []"
| "chunks (n # ns) xs = take n xs # chunks ns (drop n xs)"

definition df_rows :: "frame \<Rightarrow> (real \<times> real list) list" where
  "df_rows df = zip (index df) (cells df)"

definition array_split :: "frame \<Rightarrow> int \<Rightarrow> error + frame list" where
  "array_split df slices =
     (if slices \<le> 0 then Inl (ValueError [Txt ''number sections must be larger than 0.''])
      else Inr (map (\<lambda>block. \<lparr>columns = columns df, index = map fst block, cells = map snd block\<rparr>)
                  (chunks (split_sizes (length (df_rows df)) (nat slices)) (df_rows df))))"

text \<open>
  \<open>pd.concat(frames)\<close> for frames of the same columns, one below the other; it refuses
  the empty list.
\<close>

definition pd_concat :: "frame list \<Rightarrow> error + frame" where
  "pd_concat frames =
     (case frames of
        [] \<Rightarrow> Inl (ValueError [Txt ''No objects to concatenate''])
      | f # fs \<Rightarrow>
          Inr \<lparr>columns = columns f,
               index = concat (map index frames),
               cells = concat (map cells frames)\<rparr>)"

text \<open>The appends of a loop, one per step; the first step that raises ends the loop.\<close>

fun collect :: "(error + 'a) list \<Rightarrow> error + 'a list" where
  "collect [] = Inr []"
| "collect (r # rs) =
     (case r of
        Inl e \<Rightarrow> Inl e
      | Inr x \<Rightarrow> (case collect rs of Inl e \<Rightarrow> Inl e | Inr xs \<Rightarrow> Inr (x # xs)))"

text \<open>
  \<open>split\<close>: \<open>picks\<close> is the order in which \<open>data.sample(frac=1)\<close> draws the rows.
\<close>

definition split :: "nat list \<Rightarrow> int \<Rightarrow> 'g Database \<Rightarrow> error + (frame \<times> frame) list" where
  "split picks slices st =
     (case df_sample picks 1 None (heap st ! data st) of
        Inl e \<Rightarrow> Inl e
      | Inr shuffled \<Rightarrow>
          (case array_split shuffled slices of
             Inl e \<Rightarrow> Inl e
           | Inr theSlices \<Rightarrow>
               (case collect (map (\<lambda>i. pd_concat (take i theSlices @ drop (Suc i) theSlices))
                                [0..<length theSlices]) of
                  Inl e \<Rightarrow> Inl e
                | Inr estimationSets \<Rightarrow> Inr (zip estimationSets theSlices))))"

section \<open>Availability of the chosen alternative\<close>

text \<open>
  \<open>avail\<close> is a dictionary from the number of an alternative to the expression of its
  availability; reading a key that it does not have raises \<open>KeyError\<close>. The function
  applied to a row catches \<open>IndexError\<close> and \<open>KeyError\<close> from that reading and nothing
  else.
\<close>

definition dict_getitem :: "(real \<rightharpoonup> expression) \<Rightarrow> real \<Rightarrow> error + expression" where
  "dict_getitem avail k = (case avail k of None \<Rightarrow> Inl (KeyErrorNum k) | Some e \<Rightarrow> Inr e)"

definition functionToApply_avail ::
  "(real \<rightharpoonup> expression) \<Rightarrow> expression \<Rightarrow> row \<Rightarrow> error + bool"
where
  "functionToApply_avail avail choice r =
     (case choice r of
        Inl e \<Rightarrow> Inl e
      | Inr chosen \<Rightarrow>
          (case dict_getitem avail chosen of
             Inl IndexError \<Rightarrow> Inr False
           | Inl (KeyErrorNum k) \<Rightarrow> Inr False
           | Inl (KeyError k) \<Rightarrow> Inr False
           | Inl e \<Rightarrow> Inl e
           | Inr avExpression \<Rightarrow>
               (case avExpression r of
                  Inl e \<Rightarrow> Inl e
                | Inr av \<Rightarrow> Inr (av \<noteq> 0))))"

definition checkAvailabilityOfChosenAlt ::
  "(real \<rightharpoonup> expression) \<Rightarrow> expression \<Rightarrow> 'g Database \<Rightarrow> error + bool list"
where
  "checkAvailabilityOfChosenAlt avail choice st =
     apply_rows (functionToApply_avail avail choice) (rows_of (heap st ! data st))"

section \<open>The native normal Halton generators\<close>

text \<open>
  C1. The generators registered as \<open>NORMAL_HALTON3\<close> and \<open>NORMAL_HALTON5\<close> are described
  as normal draws from the Halton sequences of base 3 and 5, but both ask
  \<open>getHaltonDraws\<close> for base 2 (skipping 10): on every module, sample size, draw count
  and random state they are the generator \<open>NORMAL_HALTON2\<close>. On the module that echoes
  the base, the entry of \<open>NORMAL_HALTON3\<close> and of \<open>NORMAL_HALTON5\<close> at \<open>[0, 0]\<close> is 2 where
  the uniform generators of base 3 and 5 give 3 and 5.
\<close>

theorem normal_halton35_use_base2:
  "normal_halton3 dm n r g = normal_halton2 dm n r g
   \<and> normal_halton5 dm n r g = normal_halton2 dm n r g
   \<and> map_of (initNativeRandomNumberGenerators dm) ''NORMAL_HALTON3''
       = Some (normal_halton3 dm, ''Normal draws from Halton base 3 sequence'')
   \<and> map_of (initNativeRandomNumberGenerators dm) ''NORMAL_HALTON5''
       = Some (normal_halton5 dm, ''Normal draws from Halton base 5 sequence'')
   \<and> map_sum id (\<lambda>a. elems a [0, 0]) (fst (normal_halton3 echo_draws 1 1 ())) = Inr 2
   \<and> map_sum id (\<lambda>a. elems a [0, 0]) (fst (halton3 echo_draws 1 1 ())) = Inr 3
   \<and> map_sum id (\<lambda>a. elems a [0, 0]) (fst (normal_halton5 echo_draws 1 1 ())) = Inr 2
   \<and> map_sum id (\<lambda>a. elems a [0, 0]) (fst (halton5 echo_draws 1 1 ())) = Inr 5"
  by (simp add: normal_halton3_def normal_halton5_def normal_halton2_def halton3_def halton5_def
      initNativeRandomNumberGenerators_def echo_draws_def bindE_def filled_def)

section \<open>Registering user generators\<close>


lemma setRNG_collision:
  assumes "k \<in> set (map fst rng)" "k \<in> set (map fst (nativeRandomNumberGenerators st))"
  shows "\<exists>k'. k' \<in> set (map fst rng) \<and> k' \<in> set (map fst (nativeRandomNumberGenerators st))
     \<and> setRandomNumberGenerators rng st =
        Inl (ValueError [Txt k', Txt '' is a reserved keyword for draws'',
                 Txt '' and cannot be used for user-defined '', Txt ''generators''])"
proof (cases "find (\<lambda>k. k \<in> set (map fst rng)) (map fst (nativeRandomNumberGenerators st))")
  case None
  with assms show ?thesis by (auto simp: find_None_iff simp del: set_map)
next
  case (Some k')
  then have "k' \<in> set (map fst rng) \<and> k' \<in> set (map fst (nativeRandomNumberGenerators st))"
    by (auto simp: find_Some_iff)
  with Some show ?thesis by (auto simp: setRandomNumberGenerators_def)
qed

lemma setRNG_disjoint:
  assumes "set (map fst rng) \<inter> set (map fst (nativeRandomNumberGenerators st)) = {}"
  shows "setRandomNumberGenerators rng st = Inr (st\<lparr>userRandomNumberGenerators := rng\<rparr>)"
proof -
  have "find (\<lambda>k. k \<in> set (map fst rng)) (map fst (nativeRandomNumberGenerators st)) = None"
    using assms by (auto simp: find_None_iff)
  then show ?thesis by (simp add: setRandomNumberGenerators_def)
qed

lemma setRNG_Inr:
  assumes "setRandomNumberGenerators rng st = Inr st'"
  shows "st' = st\<lparr>userRandomNumberGenerators := rng\<rparr>
     \<and> set (map fst rng) \<inter> set (map fst (nativeRandomNumberGenerators st)) = {}"
  using assms
  by (auto simp: setRandomNumberGenerators_def find_None_iff simp del: set_map split: option.splits)

lemma map_of_None_keys: "t \<notin> set (map fst xs) \<Longrightarrow> map_of xs t = None"
  by (simp add: map_of_eq_None_iff)

text \<open>
  C2, as the code has it. Registering a dictionary of user generators fails with a
  \<open>ValueError\<close> that names a native key whenever one of its keys is, character for
  character, a native key. Otherwise the call replaces the whole user dictionary by the
  one supplied: after two successful registrations in a row the user dictionary is the
  second one, a type of draws resolves to its native entry or else to its entry in the
  second dictionary, and a key of the first dictionary that is not a key of the second
  no longer resolves.
\<close>

theorem setRandomNumberGenerators_replaces:
  "(\<forall>k. k \<in> set (map fst rng) \<longrightarrow> k \<in> set (map fst (nativeRandomNumberGenerators st)) \<longrightarrow>
      (\<exists>k'. k' \<in> set (map fst rng) \<and> k' \<in> set (map fst (nativeRandomNumberGenerators st))
         \<and> setRandomNumberGenerators rng st =
            Inl (ValueError [Txt k', Txt '' is a reserved keyword for draws'',
                 Txt '' and cannot be used for user-defined '', Txt ''generators''])))
   \<and> (set (map fst rng) \<inter> set (map fst (nativeRandomNumberGenerators st)) = {} \<longrightarrow>
        setRandomNumberGenerators rng st = Inr (st\<lparr>userRandomNumberGenerators := rng\<rparr>))
   \<and> (setRandomNumberGenerators rngA st = Inr st1 \<longrightarrow>
      setRandomNumberGenerators rngB st1 = Inr st2 \<longrightarrow>
        userRandomNumberGenerators st2 = rngB
        \<and> (\<forall>t. theGenerator st2 t =
               (case map_of (nativeRandomNumberGenerators st) t of
                  Some e \<Rightarrow> Some e | None \<Rightarrow> map_of rngB t))
        \<and> (\<forall>t. t \<in> set (map fst rngA) \<longrightarrow> t \<notin> set (map fst rngB) \<longrightarrow>
               theGenerator st2 t = None))"
proof (intro conjI allI impI)
  fix k assume "k \<in> set (map fst rng)" "k \<in> set (map fst (nativeRandomNumberGenerators st))"
  then show "\<exists>k'. k' \<in> set (map fst rng) \<and> k' \<in> set (map fst (nativeRandomNumberGenerators st))
         \<and> setRandomNumberGenerators rng st =
            Inl (ValueError [Txt k', Txt '' is a reserved keyword for draws'',
                 Txt '' and cannot be used for user-defined '', Txt ''generators''])"
    by (rule setRNG_collision)
next
  assume "set (map fst rng) \<inter> set (map fst (nativeRandomNumberGenerators st)) = {}"
  then show "setRandomNumberGenerators rng st = Inr (st\<lparr>userRandomNumberGenerators := rng\<rparr>)"
    by (rule setRNG_disjoint)
next
  assume a: "setRandomNumberGenerators rngA st = Inr st1"
    and b: "setRandomNumberGenerators rngB st1 = Inr st2"
  from setRNG_Inr[OF a] setRNG_Inr[OF b]
  have st2: "st2 = st\<lparr>userRandomNumberGenerators := rngB\<rparr>"
    and dA: "set (map fst rngA) \<inter> set (map fst (nativeRandomNumberGenerators st)) = {}"
    by auto
  show "userRandomNumberGenerators st2 = rngB" by (simp add: st2)
  show gen: "theGenerator st2 t =
               (case map_of (nativeRandomNumberGenerators st) t of
                  Some e \<Rightarrow> Some e | None \<Rightarrow> map_of rngB t)" for t
    by (simp add: st2 theGenerator_def split: option.splits)
  show "theGenerator st2 t = None"
    if "t \<in> set (map fst rngA)" "t \<notin> set (map fst rngB)" for t
  proof -
    from that(1) dA have "t \<notin> set (map fst (nativeRandomNumberGenerators st))" by blast
    then have "map_of (nativeRandomNumberGenerators st) t = None" by (rule map_of_None_keys)
    moreover have "map_of rngB t = None" using that(2) by (rule map_of_None_keys)
    ultimately show ?thesis by (simp add: gen)
  qed
qed

lemma demo_native_keys:
  "map fst (nativeRandomNumberGenerators demo_db) =
     [''UNIFORM'', ''UNIFORM_ANTI'', ''UNIFORM_HALTON2'', ''UNIFORM_HALTON3'', ''UNIFORM_HALTON5'',
      ''UNIFORM_MLHS'', ''UNIFORM_MLHS_ANTI'', ''UNIFORMSYM'', ''UNIFORMSYM_ANTI'',
      ''UNIFORMSYM_HALTON2'', ''UNIFORMSYM_HALTON3'', ''UNIFORMSYM_HALTON5'', ''UNIFORMSYM_MLHS'',
      ''UNIFORMSYM_MLHS_ANTI'', ''NORMAL'', ''NORMAL_ANTI'', ''NORMAL_HALTON2'', ''NORMAL_HALTON3'',
      ''NORMAL_HALTON5'', ''NORMAL_MLHS'', ''NORMAL_MLHS_ANTI'']"
  by (simp add: demo_db_def init_def initNativeRandomNumberGenerators_def)

lemma demo_reg_A:
  "setRandomNumberGenerators [(''A'', demo_generator, ''first'')] demo_db
     = Inr (demo_db\<lparr>userRandomNumberGenerators := [(''A'', demo_generator, ''first'')]\<rparr>)"
  by (rule setRNG_disjoint) (simp add: demo_native_keys)

lemma demo_reg_B:
  "setRandomNumberGenerators [(''B'', demo_generator, ''second'')]
      (demo_db\<lparr>userRandomNumberGenerators := [(''A'', demo_generator, ''first'')]\<rparr>)
     = Inr (demo_db\<lparr>userRandomNumberGenerators := [(''B'', demo_generator, ''second'')]\<rparr>)"
  using setRNG_disjoint[of "[(''B'', demo_generator, ''second'')]"
      "demo_db\<lparr>userRandomNumberGenerators := [(''A'', demo_generator, ''first'')]\<rparr>"]
  by (simp add: demo_native_keys)

text \<open>
  The theorem at work: \<open>A\<close> and then \<open>B\<close> are registered on the demo database, and
  \<open>NORMAL\<close> is refused.
\<close>

theorem setRandomNumberGenerators_replaces_witness:
  "setRandomNumberGenerators [(''A'', demo_generator, ''first'')] demo_db
     = Inr (demo_db\<lparr>userRandomNumberGenerators := [(''A'', demo_generator, ''first'')]\<rparr>)
   \<and> setRandomNumberGenerators [(''B'', demo_generator, ''second'')]
      (demo_db\<lparr>userRandomNumberGenerators := [(''A'', demo_generator, ''first'')]\<rparr>)
     = Inr (demo_db\<lparr>userRandomNumberGenerators := [(''B'', demo_generator, ''second'')]\<rparr>)
   \<and> theGenerator (demo_db\<lparr>userRandomNumberGenerators := [(''B'', demo_generator, ''second'')]\<rparr>) ''A''
       = None
   \<and> (\<exists>k'. setRandomNumberGenerators [(''NORMAL'', demo_generator, ''mine'')] demo_db =
            Inl (ValueError [Txt k', Txt '' is a reserved keyword for draws'',
                 Txt '' and cannot be used for user-defined '', Txt ''generators'']))"
proof -
  note T = setRandomNumberGenerators_replaces[of "[(''NORMAL'', demo_generator, ''mine'')]" demo_db
      "[(''A'', demo_generator, ''first'')]"
      "demo_db\<lparr>userRandomNumberGenerators := [(''A'', demo_generator, ''first'')]\<rparr>"
      "[(''B'', demo_generator, ''second'')]"
      "demo_db\<lparr>userRandomNumberGenerators := [(''B'', demo_generator, ''second'')]\<rparr>"]
  note T3 = T[THEN conjunct2, THEN conjunct2, THEN mp, THEN mp, OF demo_reg_A demo_reg_B]
  have "''A'' \<in> set (map fst [(''A'', demo_generator, ''first'')])"
       "''A'' \<notin> set (map fst [(''B'', demo_generator, ''second'')])"
    by simp_all
  with T3 have a: "theGenerator
      (demo_db\<lparr>userRandomNumberGenerators := [(''B'', demo_generator, ''second'')]\<rparr>) ''A'' = None"
    by blast
  have "''NORMAL'' \<in> set (map fst [(''NORMAL'', demo_generator, ''mine'')])"
       "''NORMAL'' \<in> set (map fst (nativeRandomNumberGenerators demo_db))"
    by (simp_all add: demo_native_keys)
  with T[THEN conjunct1] have b:
    "\<exists>k'. k' \<in> set (map fst [(''NORMAL'', demo_generator, ''mine'')])
        \<and> k' \<in> set (map fst (nativeRandomNumberGenerators demo_db))
        \<and> setRandomNumberGenerators [(''NORMAL'', demo_generator, ''mine'')] demo_db =
            Inl (ValueError [Txt k', Txt '' is a reserved keyword for draws'',
                 Txt '' and cannot be used for user-defined '', Txt ''generators''])"
    by blast
  then have "\<exists>k'. setRandomNumberGenerators [(''NORMAL'', demo_generator, ''mine'')] demo_db =
            Inl (ValueError [Txt k', Txt '' is a reserved keyword for draws'',
                 Txt '' and cannot be used for user-defined '', Txt ''generators''])"
    by blast
  with a demo_reg_A demo_reg_B show ?thesis by blast
qed

text \<open>
  C2 as stated fails: after registering \<open>A\<close> and then \<open>B\<close>, two distinct names that are
  not native, generating draws of type \<open>A\<close> raises the error of an unknown type, whose
  list of user types holds \<open>B\<close> alone.
\<close>

theorem registrations_do_not_accumulate:
  "setRandomNumberGenerators [(''A'', demo_generator, ''first'')] demo_db
     = Inr (demo_db\<lparr>userRandomNumberGenerators := [(''A'', demo_generator, ''first'')]\<rparr>)
   \<and> setRandomNumberGenerators [(''B'', demo_generator, ''second'')]
      (demo_db\<lparr>userRandomNumberGenerators := [(''A'', demo_generator, ''first'')]\<rparr>)
     = Inr (demo_db\<lparr>userRandomNumberGenerators := [(''B'', demo_generator, ''second'')]\<rparr>)
   \<and> fst (generateDraws [''v'' \<mapsto> ''A''] [''v''] 1 ()
        (demo_db\<lparr>userRandomNumberGenerators := [(''B'', demo_generator, ''second'')]\<rparr>))
      = Inl (biogemeError
                      [Txt ''Unknown type of draws for '', Txt ''variable '', Txt ''v'', Txt '': '',
                       Txt ''A'', Txt ''. '', Txt ''Native types: '',
                       Keys (map fst (nativeRandomNumberGenerators demo_db)), Txt ''. '',
                       Txt ''User defined: '', Keys [''B'']])"
  using demo_reg_A demo_reg_B
  by (simp add: generateDraws_def theGenerator_def demo_db_def init_def
      initNativeRandomNumberGenerators_def)


section \<open>The table of draws\<close>


lemma getSampleSize_typesOfDraws:
  "getSampleSize (st\<lparr>typesOfDraws := m\<rparr>) = getSampleSize st"
  by (simp add: getSampleSize_def isPanel_def split: option.splits)

lemma getSampleSize_numberOfDraws:
  "getSampleSize (st\<lparr>numberOfDraws := r\<rparr>) = getSampleSize st"
  by (simp add: getSampleSize_def isPanel_def split: option.splits)

lemma same_env_types:
  "same_env st st0 \<Longrightarrow> same_env (st\<lparr>typesOfDraws := m\<rparr>) st0"
  by (simp add: same_env_def getSampleSize_typesOfDraws)

lemma same_env_numberOfDraws:
  "same_env (st\<lparr>numberOfDraws := r\<rparr>) st"
  by (simp add: same_env_def getSampleSize_numberOfDraws)

lemma same_env_theGenerator:
  "same_env st st0 \<Longrightarrow> theGenerator st t = theGenerator st0 t"
  by (simp add: same_env_def theGenerator_def split: option.splits)

lemma shape_of_int: "map int s = [int n, r] \<Longrightarrow> s = [n, nat r]"
  by (cases s; cases "tl s"; auto)

lemma loop_ok:
  assumes "\<forall>v\<in>set vs. well_behaved st0 types n r v"
    and "getSampleSize st0 = Inr n" and "same_env st st0"
  shows "\<exists>ds g2 st2. generateDraws_loop types r vs acc g st = (Inr (acc @ ds), st2, g2)
           \<and> produced st0 types n r vs g = Some (ds, g2) \<and> length ds = length vs
           \<and> (\<forall>a\<in>set ds. shape a = [n, nat r])"
  using assms
proof (induction vs arbitrary: acc g st)
  case Nil
  show ?case by simp
next
  case (Cons v vs)
  from Cons.prems(1) have wb: "well_behaved st0 types n r v" by simp
  then obtain drawType gen description where
    ty: "types v = Some drawType" and
    ge: "theGenerator st0 drawType = Some (gen, description)" and
    gp: "\<forall>g. \<exists>a g1. gen n r g = (Inr a, g1) \<and> map int (shape a) = [int n, r]"
    unfolding well_behaved_def by blast
  from spec[OF gp, of g] obtain a g1
    where run: "gen n r g = (Inr a, g1)" and sh: "map int (shape a) = [int n, r]"
    by auto
  let ?st1 = "st\<lparr>typesOfDraws := (typesOfDraws st)(v \<mapsto> drawType)\<rparr>"
  have env1: "same_env ?st1 st0" using Cons.prems(3) by (rule same_env_types)
  have ge1: "theGenerator ?st1 drawType = Some (gen, description)"
    using same_env_theGenerator[OF env1] ge by simp
  have ss1: "getSampleSize ?st1 = Inr n"
    using env1 Cons.prems(2) by (simp add: same_env_def)
  have step: "generateDraws_loop types r (v # vs) acc g st
      = generateDraws_loop types r vs (acc @ [a]) g1 ?st1"
    using ty ge1 ss1 run sh by (simp add: Let_def)
  from Cons.prems(1) have rest: "\<forall>v\<in>set vs. well_behaved st0 types n r v" by simp
  from Cons.IH[OF rest Cons.prems(2) env1, of "acc @ [a]" g1]
  obtain ds g2 st2 where
    r1: "generateDraws_loop types r vs (acc @ [a]) g1 ?st1 = (Inr ((acc @ [a]) @ ds), st2, g2)"
    and r2: "produced st0 types n r vs g1 = Some (ds, g2)" and r3: "length ds = length vs"
    and r4: "\<forall>a\<in>set ds. shape a = [n, nat r]"
    by blast
  have p: "produced st0 types n r (v # vs) g = Some (a # ds, g2)"
    using ty ge run r2 by simp
  have sa: "shape a = [n, nat r]" using sh by (rule shape_of_int)
  show ?case
    using step r1 p r3 r4 sa by auto
qed

lemma np_array_shape:
  assumes "ds \<noteq> []" "\<forall>a\<in>set ds. shape a = s"
  shows "shape (np_array ds) = length ds # s"
  using assms by (cases ds) (auto simp: np_array_def)

lemma np_array_elems:
  assumes "v < length ds"
  shows "elems (np_array ds) (v # rest) = elems (ds ! v) rest"
  using assms by (cases ds) (auto simp: np_array_def)

lemma moveaxis_stack:
  assumes "shape b = [k, n, m]"
  shows "\<exists>T. moveaxis_0_last b = Inr T \<and> shape T = [n, m, k]
     \<and> (\<forall>i d v. elems T [i, d, v] = elems b [v, i, d])"
  using assms by (simp add: moveaxis_0_last_def)

text \<open>
  The table of draws for a list of names that is not empty, as the documentation of
  \<open>generateDraws\<close> has it. When every name of the list has a type of
  draws that resolves to a generator returning arrays of shape (sample size, number of
  draws), \<open>generateDraws\<close> returns a tensor \<open>T\<close> of shape (sample size, number of
  draws, number of names) and stores it; its entry \<open>[i, d, v]\<close> is the entry \<open>[i, d]\<close>
  of the array that the generator of the \<open>v\<close>-th name produced, the generators being
  called in list order. The sample size is the number of rows of the individual map in
  panel mode and of the data otherwise.
\<close>

theorem generateDraws_tensor:
  assumes "names \<noteq> []" and "getSampleSize st = Inr n"
    and "\<forall>v\<in>set names. well_behaved st types n r v"
  shows "\<exists>T ds st2 g2.
           generateDraws types names r g st = (Inr T, st2, g2)
         \<and> produced st types n r names g = Some (ds, g2)
         \<and> shape T = [n, nat r, length names]
         \<and> (\<forall>v<length names. \<forall>i<n. \<forall>d<nat r. elems T [i, d, v] = elems (ds ! v) [i, d])
         \<and> theDraws st2 = Some T
         \<and> (if isPanel st then \<exists>a. individualMap st = Some a \<and> n = nrows (heap st ! a)
            else n = nrows (heap st ! data st))"
proof -
  from loop_ok[OF assms(3) assms(2) same_env_numberOfDraws, of "[]" g r]
  obtain ds g2 st2 where
    r1: "generateDraws_loop types r names [] g (st\<lparr>numberOfDraws := r\<rparr>) = (Inr ds, st2, g2)"
    and r2: "produced st types n r names g = Some (ds, g2)" and r3: "length ds = length names"
    and r4: "\<forall>a\<in>set ds. shape a = [n, nat r]"
    by auto
  from r3 assms(1) have ne: "ds \<noteq> []" by auto
  have sh: "shape (np_array ds) = [length names, n, nat r]"
    using np_array_shape[OF ne r4] r3 by simp
  from moveaxis_stack[OF sh] obtain T where
    m1: "moveaxis_0_last (np_array ds) = Inr T" and m2: "shape T = [n, nat r, length names]"
    and m3: "\<forall>i d v. elems T [i, d, v] = elems (np_array ds) [v, i, d]"
    by blast
  have res: "generateDraws types names r g st = (Inr T, st2\<lparr>theDraws := Some T\<rparr>, g2)"
    using r1 m1 by (simp add: generateDraws_def Let_def)
  have el: "\<forall>v<length names. \<forall>i<n. \<forall>d<nat r. elems T [i, d, v] = elems (ds ! v) [i, d]"
    using m3 r3 by (simp add: np_array_elems)
  have sz: "if isPanel st then \<exists>a. individualMap st = Some a \<and> n = nrows (heap st ! a)
            else n = nrows (heap st ! data st)"
    using assms(2) by (auto simp: getSampleSize_def split: option.splits if_splits)
  show ?thesis
    using res r2 m2 el sz by (intro exI[of _ T] exI[of _ ds] exI[of _ "st2\<lparr>theDraws := Some T\<rparr>"] exI[of _ g2]) simp
qed

lemma demo_well_behaved:
  "\<forall>v\<in>set [''x'', ''y''].
      well_behaved demo_db [''x'' \<mapsto> ''UNIFORM_HALTON3'', ''y'' \<mapsto> ''NORMAL_MLHS''] 3 2 v"
  by (simp add: well_behaved_def theGenerator_def demo_db_def init_def
      initNativeRandomNumberGenerators_def halton3_def normal_MLHS_def bindE_def
      echo_draws_def filled_def)

lemma demo_sample_size: "getSampleSize demo_db = Inr 3"
  by (simp add: getSampleSize_def isPanel_def demo_db_def init_def demo_frame_def nrows_def)

text \<open>
  The theorem at work on the demo database, for two names and two draws: the tensor
  holds the base 3 of the Halton array for \<open>x\<close> and the 1 of the hypercube array for
  \<open>y\<close>.
\<close>

theorem generateDraws_tensor_witness:
  "[''x'', ''y''] \<noteq> [] \<and> getSampleSize demo_db = Inr 3
   \<and> (\<exists>T st2 g2.
         generateDraws [''x'' \<mapsto> ''UNIFORM_HALTON3'', ''y'' \<mapsto> ''NORMAL_MLHS''] [''x'', ''y''] 2 ()
           demo_db = (Inr T, st2, g2)
       \<and> shape T = [3, 2, 2]
       \<and> elems T [2, 1, 0] = 3
       \<and> elems T [2, 1, 1] = 1)"
proof -
  have ne: "[''x'', ''y''] \<noteq> []" by simp
  have pr: "produced demo_db [''x'' \<mapsto> ''UNIFORM_HALTON3'', ''y'' \<mapsto> ''NORMAL_MLHS''] 3 2
            [''x'', ''y''] () = Some ([filled 3 2 3, filled 3 2 1], ())"
    by (simp add: theGenerator_def demo_db_def init_def initNativeRandomNumberGenerators_def
        halton3_def normal_MLHS_def bindE_def echo_draws_def)
  from generateDraws_tensor[OF ne demo_sample_size demo_well_behaved, of "()"]
  obtain T ds st2 g2 where
    a: "generateDraws [''x'' \<mapsto> ''UNIFORM_HALTON3'', ''y'' \<mapsto> ''NORMAL_MLHS''] [''x'', ''y''] 2 ()
           demo_db = (Inr T, st2, g2)"
    and b: "produced demo_db [''x'' \<mapsto> ''UNIFORM_HALTON3'', ''y'' \<mapsto> ''NORMAL_MLHS''] 3 2
            [''x'', ''y''] () = Some (ds, g2)"
    and c: "shape T = [3, nat 2, length [''x'', ''y'']]"
    and d: "\<forall>v<length [''x'', ''y'']. \<forall>i<3. \<forall>d<nat 2. elems T [i, d, v] = elems (ds ! v) [i, d]"
    by blast
  from b pr have ds: "ds = [filled 3 2 3, filled 3 2 1]" by simp
  from c have c': "shape T = [3, 2, 2]" by simp
  from d have "elems T [2, 1, 0] = elems (ds ! 0) [2, 1]" by simp
  then have d0: "elems T [2, 1, 0] = 3" by (simp add: ds filled_def)
  from d have "elems T [2, 1, 1] = elems (ds ! 1) [2, 1]" by simp
  then have d1: "elems T [2, 1, 1] = 1" by (simp add: ds filled_def)
  from ne demo_sample_size a c' d0 d1 show ?thesis by blast
qed

text \<open>
  C7. The documentation of \<open>generateDraws\<close> and the comment before its last lines
  promise a table of three dimensions: individuals, draws, variables. On the empty list
  of names the code does not deliver it: on the demo database, of sample size 3, the
  call for 4 draws returns an array of shape \<open>(0,)\<close>, with one axis, where the three
  axes would have the shape \<open>(3, 4, 0)\<close>.
\<close>

theorem generateDraws_no_names:
  "map_sum id shape (fst (generateDraws Map.empty [] 4 () demo_db)) = Inr [0]
   \<and> getSampleSize demo_db = Inr 3"
  by (simp add: generateDraws_def np_array_def moveaxis_0_last_def getSampleSize_def isPanel_def
      demo_db_def init_def demo_frame_def nrows_def Let_def)

section \<open>Panel data: the individual map\<close>


subsection \<open>Sorting\<close>

lemma argsort_bound:
  assumes "valid_argsort argsort" "p \<in> set (argsort ks)"
  shows "p < length ks"
proof -
  from assms(1) have "mset (argsort ks) = mset [0..<length ks]" by (simp add: valid_argsort_def)
  then have "set (argsort ks) = set [0..<length ks]" by (rule mset_eq_setD)
  with assms(2) show ?thesis by simp
qed

lemma argsort_length:
  assumes "valid_argsort argsort"
  shows "length (argsort ks) = length ks"
proof -
  from assms have "mset (argsort ks) = mset [0..<length ks]" by (simp add: valid_argsort_def)
  then have "size (mset (argsort ks)) = size (mset [0..<length ks])" by simp
  then show ?thesis by simp
qed

lemma argsort_sorts:
  assumes "valid_argsort argsort"
  shows "map (\<lambda>p. ks ! p) (argsort ks) = sort ks"
proof -
  from assms have m: "mset (argsort ks) = mset [0..<length ks]"
    and s: "sorted (map (\<lambda>p. ks ! p) (argsort ks))" by (simp_all add: valid_argsort_def)
  have "mset (map (\<lambda>p. ks ! p) (argsort ks)) = image_mset (\<lambda>p. ks ! p) (mset [0..<length ks])"
    using m by simp
  also have "\<dots> = mset (map (\<lambda>p. ks ! p) [0..<length ks])" by simp
  also have "\<dots> = mset ks" by (simp add: map_nth)
  finally have "mset (map (\<lambda>p. ks ! p) (argsort ks)) = mset ks" .
  from properties_for_sort[OF this s] show ?thesis by simp
qed

lemma valid_stable_argsort: "valid_argsort stable_argsort"
proof -
  have a: "mset (stable_argsort ks) = mset [0..<length ks]" for ks
  proof -
    have "mset (map fst (sort_key snd (enumerate 0 ks))) = mset (map fst (enumerate 0 ks))"
      by (simp only: mset_map mset_sort)
    moreover have "map fst (enumerate 0 ks) = [0..<length ks]" by simp
    ultimately show ?thesis by (simp only: stable_argsort_def)
  qed
  have b: "sorted (map (\<lambda>p. ks ! p) (stable_argsort ks))" for ks
  proof -
    have "\<forall>e\<in>set (sort_key snd (enumerate 0 ks)). ks ! fst e = snd e"
      by (auto simp: in_set_enumerate_eq)
    then have "map (\<lambda>p. ks ! p) (stable_argsort ks) = map snd (sort_key snd (enumerate 0 ks))"
      by (simp add: stable_argsort_def)
    then show ?thesis by simp
  qed
  show ?thesis unfolding valid_argsort_def using a b by blast
qed

lemma position_Some: "position c xs = Some j \<Longrightarrow> j < length xs \<and> xs ! j = c"
  by (induction xs arbitrary: j) (auto split: if_splits)

lemma sort_values_ok:
  assumes "valid_argsort argsort" "col_values df c = Inr ks"
  shows "sort_values argsort df c =
           Inr \<lparr>columns = columns df,
                index = map (\<lambda>p. index df ! p) (argsort ks),
                cells = map (\<lambda>p. cells df ! p) (argsort ks)\<rparr>"
    and "col_values \<lparr>columns = columns df, index = idx,
                     cells = map (\<lambda>p. cells df ! p) (argsort ks)\<rparr> c = Inr (sort ks)"
proof -
  show "sort_values argsort df c =
           Inr \<lparr>columns = columns df,
                index = map (\<lambda>p. index df ! p) (argsort ks),
                cells = map (\<lambda>p. cells df ! p) (argsort ks)\<rparr>"
    using assms(2) by (simp add: sort_values_def)
  from assms(2) obtain j where j: "position c (columns df) = Some j"
    and ks: "ks = map (\<lambda>row. row ! j) (cells df)"
    by (auto simp: col_values_def split: option.splits)
  have len: "length ks = length (cells df)" by (simp add: ks)
  have "map (\<lambda>row. row ! j) (map (\<lambda>p. cells df ! p) (argsort ks)) = map (\<lambda>p. ks ! p) (argsort ks)"
    using argsort_bound[OF assms(1), of _ ks] len by (simp add: ks)
  also have "\<dots> = sort ks" using assms(1) by (rule argsort_sorts)
  finally show "col_values \<lparr>columns = columns df, index = idx,
                     cells = map (\<lambda>p. cells df ! p) (argsort ks)\<rparr> c = Inr (sort ks)"
    using j by (simp add: col_values_def)
qed

subsection \<open>Runs and distinct values\<close>

lemma count_runs_sorted: "sorted xs \<Longrightarrow> count_runs xs = card (set xs)"
proof (induction xs rule: count_runs.induct)
  case 1 show ?case by simp
next
  case (2 x) show ?case by simp
next
  case (3 x y ys)
  then have ih: "count_runs (y # ys) = card (set (y # ys))" by simp
  show ?case
  proof (cases "x = y")
    case True
    then show ?thesis using ih by (simp add: insert_absorb)
  next
    case False
    with 3(2) have "x \<notin> set (y # ys)" by auto
    then show ?thesis using ih False by simp
  qed
qed



lemma set_unique: "set (unique xs) = set xs"
  by (induction xs rule: unique.induct) auto

lemma distinct_unique: "distinct (unique xs)"
  by (induction xs rule: unique.induct) (auto simp: set_unique)



subsection \<open>The positions of a value in a sorted list\<close>

lemma sorted_three_parts:
  "sorted (s::real list) \<Longrightarrow>
     s = filter (\<lambda>y. y < i) s @ filter (\<lambda>y. y = i) s @ filter (\<lambda>y. i < y) s"
proof (induction s)
  case Nil show ?case by simp
next
  case (Cons x xs)
  then have ih: "xs = filter (\<lambda>y. y < i) xs @ filter (\<lambda>y. y = i) xs @ filter (\<lambda>y. i < y) xs"
    and ge: "\<forall>y\<in>set xs. x \<le> y" by simp_all
  consider "x < i" | "x = i" | "i < x" by linarith
  then show ?case
  proof cases
    case 1
    then show ?thesis using ih by simp
  next
    case 2
    with ge have "filter (\<lambda>y. y < i) xs = []" by (auto simp: filter_empty_conv)
    then show ?thesis using ih 2 by simp
  next
    case 3
    with ge have "filter (\<lambda>y. y < i) xs = []" "filter (\<lambda>y. y = i) xs = []"
      by (auto simp: filter_empty_conv)
    then show ?thesis using ih 3 by simp
  qed
qed

lemma sorted_nth_eq_iff:
  assumes "sorted (s::real list)" "p < length s"
  shows "s ! p = i \<longleftrightarrow> count_below s i \<le> p \<and> p < count_below s i + count_equal s i"
proof -
  let ?A = "filter (\<lambda>y. y < i) s" and ?B = "filter (\<lambda>y. y = i) s" and ?C = "filter (\<lambda>y. i < y) s"
  have dec: "s = ?A @ ?B @ ?C" using assms(1) by (rule sorted_three_parts)
  have len: "length s = length ?A + length ?B + length ?C"
    using arg_cong[OF dec, of length] by simp
  consider "p < length ?A" | "length ?A \<le> p" "p < length ?A + length ?B"
    | "length ?A + length ?B \<le> p" by linarith
  then show ?thesis
  proof cases
    case 1
    then have "s ! p = ?A ! p" by (subst dec) (simp add: nth_append)
    moreover have "?A ! p \<in> set ?A" using 1 by (rule nth_mem)
    ultimately have "s ! p < i" by simp
    with 1 show ?thesis by (simp add: count_below_def)
  next
    case 2
    then have "s ! p = ?B ! (p - length ?A)" by (subst dec) (simp add: nth_append)
    moreover have "?B ! (p - length ?A) \<in> set ?B" using 2 by (intro nth_mem) linarith
    ultimately have "s ! p = i" by simp
    with 2 show ?thesis by (simp add: count_below_def count_equal_def)
  next
    case 3
    then have "s ! p = ?C ! (p - length ?A - length ?B)"
      by (subst dec) (simp add: nth_append)
    moreover have "?C ! (p - length ?A - length ?B) \<in> set ?C"
      using 3 assms(2) len by (intro nth_mem) linarith
    ultimately have "i < s ! p" by simp
    with 3 show ?thesis by (simp add: count_below_def count_equal_def)
  qed
qed

lemma count_bound: "count_below s i + count_equal s i \<le> length s"
proof -
  have "count_below s i + count_equal s i = length (filter (\<lambda>y. y \<le> i) s)"
    unfolding count_below_def count_equal_def
    by (induction s) auto
  then show ?thesis by simp
qed

lemma count_equal_pos: "i \<in> set s \<Longrightarrow> 0 < count_equal s i"
  by (auto simp: count_equal_def filter_empty_conv)

lemma positions_sorted:
  assumes "sorted (s::real list)"
  shows "filter (\<lambda>p. s ! p = i) [0..<length s]
           = [count_below s i..<count_below s i + count_equal s i]"
proof (rule sorted_distinct_set_unique)
  show "sorted (filter (\<lambda>p. s ! p = i) [0..<length s])" by (simp add: sorted_wrt_filter)
  show "distinct (filter (\<lambda>p. s ! p = i) [0..<length s])" by simp
  show "sorted [count_below s i..<count_below s i + count_equal s i]" by simp
  show "distinct [count_below s i..<count_below s i + count_equal s i]" by simp
  have "p \<in> set (filter (\<lambda>p. s ! p = i) [0..<length s])
          \<longleftrightarrow> p \<in> set [count_below s i..<count_below s i + count_equal s i]" for p
  proof (cases "p < length s")
    case True
    then show ?thesis using sorted_nth_eq_iff[OF assms True, of i] by simp
  next
    case False
    then show ?thesis using count_bound[of s i] by simp
  qed
  then show "set (filter (\<lambda>p. s ! p = i) [0..<length s])
          = set [count_below s i..<count_below s i + count_equal s i]"
    by blast
qed

lemma indices_sorted:
  assumes "sorted (s::real list)"
  shows "map fst (filter (\<lambda>(l, k). k = i) (zip (map real [0..<length s]) s))
           = map real [count_below s i..<count_below s i + count_equal s i]"
proof -
  have z: "zip (map real [0..<length s]) s = map (\<lambda>p. (real p, s ! p)) [0..<length s]"
    by (rule nth_equalityI) simp_all
  have "map fst (filter (\<lambda>(l, k). k = i) (zip (map real [0..<length s]) s))
          = map real (filter (\<lambda>p. s ! p = i) [0..<length s])"
    unfolding z by (simp add: filter_map comp_def)
  then show ?thesis using positions_sorted[OF assms] by simp
qed

lemma min_max_range:
  assumes "0 < e"
  shows "py_min (map real [l..<l + e]) = Inr (real l)"
    and "py_max (map real [l..<l + e]) = Inr (real (l + e - 1))"
proof -
  have ne: "map real [l..<l + e] \<noteq> []" using assms by simp
  have "Min (set (map real [l..<l + e])) = real l"
    using assms by (intro Min_eqI) auto
  then show "py_min (map real [l..<l + e]) = Inr (real l)"
    using ne by (simp only: py_min_def if_False)
  have "Max (real ` {l..<l + e}) = real (l + e - 1)"
  proof (rule Max_eqI)
    show "finite (real ` {l..<l + e})" by simp
    show "y \<le> real (l + e - 1)" if "y \<in> real ` {l..<l + e}" for y
    proof -
      from that obtain k where k: "y = real k" "k \<in> {l..<l + e}" by auto
      then have "k \<le> l + e - 1" by auto
      then show ?thesis unfolding k(1) by (simp only: of_nat_le_iff)
    qed
    have "l + e - 1 \<in> {l..<l + e}" using assms by auto
    then show "real (l + e - 1) \<in> real ` {l..<l + e}" by (rule imageI)
  qed
  then have "Max (set (map real [l..<l + e])) = real (l + e - 1)" by simp
  then show "py_max (map real [l..<l + e]) = Inr (real (l + e - 1))"
    using ne by (simp only: py_max_def if_False)
qed

lemma update_fresh: "k \<notin> fst ` set al \<Longrightarrow> AList.update k v al = al @ [(k, v)]"
  by (induction al) auto

lemma local_map_loop_sorted:
  assumes "sorted (s::real list)" "distinct us" "set us \<subseteq> set s" "set us \<inter> fst ` set acc = {}"
  shows "local_map_loop (map real [0..<length s]) s us acc
           = Inr (acc @ map (\<lambda>i. (i, [real (fst (range_of s i)), real (snd (range_of s i))])) us)"
  using assms(2-4)
proof (induction us arbitrary: acc)
  case Nil show ?case by simp
next
  case (Cons i us)
  from Cons.prems have mem: "i \<in> set s" and fresh: "i \<notin> fst ` set acc" by auto
  have pos: "0 < count_equal s i" using mem by (rule count_equal_pos)
  note mm = min_max_range[OF pos, of "count_below s i"]
  have upd: "AList.update i v acc = acc @ [(i, v)]" for v using fresh by (rule update_fresh)
  have pre: "distinct us" "set us \<subseteq> set s"
    "set us \<inter> fst ` set (acc @ [(i, [real (count_below s i), real (count_below s i + count_equal s i - 1)])]) = {}"
    using Cons.prems by auto
  show ?case
    using Cons.IH[OF pre]
    by (simp add: indices_sorted[OF assms(1)] mm upd range_of_def)
qed

lemma panel_ranges_loop:
  assumes "sorted (s::real list)"
  shows "local_map_loop (map real [0..<length s]) s (unique s) [] = Inr (panel_ranges s)"
  using local_map_loop_sorted[OF assms distinct_unique, of s "[]"]
  by (simp add: set_unique panel_ranges_def)

subsection \<open>Ranges that tile the rows\<close>






subsection \<open>The two operations\<close>

lemma buildPanelMap_ok:
  assumes "valid_argsort argsort" "panelColumn st = Some c"
    and "col_values (heap st ! data st) c = Inr ks"
  shows "buildPanelMap argsort st =
     (Inr (),
      st\<lparr>heap := heap st @
            [\<lparr>columns = columns (heap st ! data st),
              index = map real [0..<length ks],
              cells = map (\<lambda>p. cells (heap st ! data st) ! p) (argsort ks)\<rparr>,
             frame_of_local_map (panel_ranges (sort ks))],
         data := length (heap st),
         individualMap := Some (Suc (length (heap st))),
         fullIndividualMap := Some (Suc (length (heap st)))\<rparr>)"
proof -
  note sv = sort_values_ok[OF assms(1,3)]
  have len: "length (sort ks) = length ks" by simp
  have loop: "local_map_loop (map real [0..<length ks]) (sort ks) (unique (sort ks)) []
                = Inr (panel_ranges (sort ks))"
    using panel_ranges_loop[of "sort ks"] by simp
  show ?thesis
    unfolding buildPanelMap_def
    by (simp add: assms(2) sv(1) sv(2) argsort_length[OF assms(1)] loop Let_def)
qed

lemma panel_unfold:
  assumes "valid_argsort argsort" "col_values (heap st ! data st) c = Inr ks"
  shows "panel argsort c st =
     (if count_runs ks \<noteq> card (set ks) then
        (Inl (biogemeError
               [Txt ''The data must be sorted so that the data'',
                Txt '' for the same individual are consecutive.'',
                Txt '' There are '', Num (int (card (set ks))), Txt '' individuals '',
                Txt ''in the sample, and '', Num (int (count_runs ks)), Txt '' groups of '',
                Txt ''data for column '', Lbl c, Txt ''.'']),
         st\<lparr>panelColumn := Some c\<rparr>)
      else buildPanelMap argsort (st\<lparr>panelColumn := Some c\<rparr>))"
proof -
  note sv = sort_values_ok[OF assms]
  have "count_runs (sort ks) = card (set ks)"
    using count_runs_sorted[of "sort ks"] by simp
  then show ?thesis
    unfolding panel_def
    by (simp add: countNumberOfGroups_def assms(2) sv(1) sv(2) Let_def)
qed

lemma panel_no_column:
  assumes "col_values (heap st ! data st) c = Inl e"
  shows "panel argsort c st = (Inl e, st\<lparr>panelColumn := Some c\<rparr>)"
  using assms unfolding panel_def by (simp add: countNumberOfGroups_def Let_def)




lemma demo_ids: "col_values (heap demo_db ! data demo_db) (Name ''id'') = Inr [1, 1, 2]"
  by (simp add: demo_db_def init_def demo_frame_def col_values_def)










lemma col_values_ids_frame:
  "col_values (heap (init dm nm (ids_frame ks)) ! data (init dm nm (ids_frame ks))) (Name ''id'')
     = Inr ks"
  by (simp add: init_def ids_frame_def col_values_def comp_def)

lemma panel_ranges_example:
  "frame_of_local_map (panel_ranges [1, 1, 1, 2, 2, 2])
     = \<lparr>columns = [Pos 0, Pos 1], index = [1, 2], cells = [[0, 2], [3, 5]]\<rparr>"
  by (simp add: frame_of_local_map_def panel_ranges_def range_of_def count_below_def
      count_equal_def)

text \<open>
  C4. On a database that has the grouping column, with values \<open>ks\<close>, \<open>panel\<close> raises
  the error about data that is not consecutive exactly when the number of runs of
  equal values in \<open>ks\<close> differs from the number of distinct values of \<open>ks\<close>; the
  message holds both numbers and the column, and the column stays recorded as the panel
  column. Otherwise the call returns. The identifiers \<open>1, 1, 2, 2, 2, 1\<close> are refused
  with 2 individuals and 3 groups; \<open>1, 1, 1, 2, 2, 2\<close> are accepted and the individual
  map is \<open>1: (0, 2)\<close>, \<open>2: (3, 5)\<close>.
\<close>

theorem panel_fails_iff:
  assumes "valid_argsort argsort" and "col_values (heap st ! data st) c = Inr ks"
  shows "(count_runs ks \<noteq> card (set ks) \<longrightarrow>
            panel argsort c st =
              (Inl (biogemeError
                     [Txt ''The data must be sorted so that the data'',
                      Txt '' for the same individual are consecutive.'',
                      Txt '' There are '', Num (int (card (set ks))), Txt '' individuals '',
                      Txt ''in the sample, and '', Num (int (count_runs ks)), Txt '' groups of '',
                      Txt ''data for column '', Lbl c, Txt ''.'']),
               st\<lparr>panelColumn := Some c\<rparr>))
       \<and> (count_runs ks = card (set ks) \<longrightarrow> fst (panel argsort c st) = Inr ())
       \<and> fst (panel argsort (Name ''id'') (init dm nm (ids_frame [1, 1, 2, 2, 2, 1])))
           = Inl (biogemeError
                     [Txt ''The data must be sorted so that the data'',
                      Txt '' for the same individual are consecutive.'',
                      Txt '' There are '', Num 2, Txt '' individuals '',
                      Txt ''in the sample, and '', Num 3, Txt '' groups of '',
                      Txt ''data for column '', Lbl (Name ''id''), Txt ''.''])
       \<and> (case panel argsort (Name ''id'') (init dm nm (ids_frame [1, 1, 1, 2, 2, 2])) of
            (r, st') \<Rightarrow>
              r = Inr ()
              \<and> map_option (\<lambda>b. heap st' ! b) (individualMap st')
                  = Some \<lparr>columns = [Pos 0, Pos 1], index = [1, 2], cells = [[0, 2], [3, 5]]\<rparr>)"
proof (intro conjI impI)
  assume "count_runs ks \<noteq> card (set ks)"
  then show "panel argsort c st =
              (Inl (biogemeError
                     [Txt ''The data must be sorted so that the data'',
                      Txt '' for the same individual are consecutive.'',
                      Txt '' There are '', Num (int (card (set ks))), Txt '' individuals '',
                      Txt ''in the sample, and '', Num (int (count_runs ks)), Txt '' groups of '',
                      Txt ''data for column '', Lbl c, Txt ''.'']),
               st\<lparr>panelColumn := Some c\<rparr>)"
    by (simp add: panel_unfold[OF assms])
next
  assume eq: "count_runs ks = card (set ks)"
  have c1: "col_values (heap (st\<lparr>panelColumn := Some c\<rparr>) ! data (st\<lparr>panelColumn := Some c\<rparr>)) c
              = Inr ks"
    using assms(2) by simp
  show "fst (panel argsort c st) = Inr ()"
    by (simp add: panel_unfold[OF assms] eq buildPanelMap_ok[OF assms(1) _ c1])
next
  have "count_runs [1, 1, 2, 2, 2, 1 :: real] = 3" "card (set [1, 1, 2, 2, 2, 1 :: real]) = 2"
    unfolding List.card_set by simp_all
  then show "fst (panel argsort (Name ''id'') (init dm nm (ids_frame [1, 1, 2, 2, 2, 1])))
           = Inl (biogemeError
                     [Txt ''The data must be sorted so that the data'',
                      Txt '' for the same individual are consecutive.'',
                      Txt '' There are '', Num 2, Txt '' individuals '',
                      Txt ''in the sample, and '', Num 3, Txt '' groups of '',
                      Txt ''data for column '', Lbl (Name ''id''), Txt ''.''])"
    by (simp add: panel_unfold[OF assms(1) col_values_ids_frame])
next
  let ?st = "init dm nm (ids_frame [1, 1, 1, 2, 2, 2])"
  have c1: "col_values (heap (?st\<lparr>panelColumn := Some (Name ''id'')\<rparr>)
               ! data (?st\<lparr>panelColumn := Some (Name ''id'')\<rparr>)) (Name ''id'')
              = Inr [1, 1, 1, 2, 2, 2]"
    using col_values_ids_frame[of dm nm "[1, 1, 1, 2, 2, 2]"] by simp
  have r: "count_runs [1, 1, 1, 2, 2, 2 :: real] = card (set [1, 1, 1, 2, 2, 2 :: real])"
    unfolding List.card_set by simp
  show "case panel argsort (Name ''id'') ?st of
            (r, st') \<Rightarrow>
              r = Inr ()
              \<and> map_option (\<lambda>b. heap st' ! b) (individualMap st')
                  = Some \<lparr>columns = [Pos 0, Pos 1], index = [1, 2], cells = [[0, 2], [3, 5]]\<rparr>"
    by (simp add: panel_unfold[OF assms(1) col_values_ids_frame] r
        buildPanelMap_ok[OF assms(1) _ c1] nth_append panel_ranges_example)
qed

text \<open>The theorem at work: the demo database is accepted, the identifiers \<open>1, 2, 1\<close> are not.\<close>

theorem panel_fails_iff_witness:
  "valid_argsort stable_argsort
   \<and> col_values (heap demo_db ! data demo_db) (Name ''id'') = Inr [1, 1, 2]
   \<and> fst (panel stable_argsort (Name ''id'') demo_db) = Inr ()
   \<and> fst (panel stable_argsort (Name ''id'') (init echo_draws ''d'' (ids_frame [1, 2, 1])))
       = Inl (biogemeError
                     [Txt ''The data must be sorted so that the data'',
                      Txt '' for the same individual are consecutive.'',
                      Txt '' There are '', Num 2, Txt '' individuals '',
                      Txt ''in the sample, and '', Num 3, Txt '' groups of '',
                      Txt ''data for column '', Lbl (Name ''id''), Txt ''.''])"
proof -
  have a: "count_runs [1, 1, 2 :: real] = card (set [1, 1, 2 :: real])"
    unfolding List.card_set by simp
  have b: "count_runs [1, 2, 1 :: real] \<noteq> card (set [1, 2, 1 :: real])"
    unfolding List.card_set by simp
  have b2: "count_runs [1, 2, 1 :: real] = 3" "card (set [1, 2, 1 :: real]) = 2"
    unfolding List.card_set by simp_all
  note w1 = panel_fails_iff[OF valid_stable_argsort demo_ids, of echo_draws "''d''",
      THEN conjunct2, THEN conjunct1, THEN mp, OF a]
  note w2 = panel_fails_iff[OF valid_stable_argsort
      col_values_ids_frame[of echo_draws "''d''" "[1, 2, 1]"], of echo_draws "''d''",
      THEN conjunct1, THEN mp, OF b]
  from w2 have w2': "fst (panel stable_argsort (Name ''id'') (init echo_draws ''d'' (ids_frame [1, 2, 1])))
       = Inl (biogemeError
                     [Txt ''The data must be sorted so that the data'',
                      Txt '' for the same individual are consecutive.'',
                      Txt '' There are '', Num 2, Txt '' individuals '',
                      Txt ''in the sample, and '', Num 3, Txt '' groups of '',
                      Txt ''data for column '', Lbl (Name ''id''), Txt ''.''])"
    using b2 by simp
  from valid_stable_argsort demo_ids w1 w2' show ?thesis by blast
qed

section \<open>Sampling and the full copy\<close>

lemma df_sample_ok:
  assumes "0 < r" "r \<le> 1"
  shows "\<exists>smp. df_sample picks r None F = Inr smp \<and> columns smp = columns F"
  using assms by (simp add: df_sample_def df_iloc_def)

lemma df_sample_columns:
  "df_sample picks r w F = Inr smp \<Longrightarrow> columns smp = columns F"
  by (auto simp: df_sample_def df_iloc_def split: option.splits if_splits)

lemma presample_sampled:
  assumes "presample st" "0 < r" "r \<le> 1" "working_copy st = Some F"
  shows "\<exists>st1. sampleWithoutReplacement r None picks st = (Inr (), st1)
           \<and> sampled_from F st1 \<and> isPanel st1 = isPanel st"
proof (cases "isPanel st")
  case True
  with assms(1) obtain w where w: "individualMap st = Some w" "w < length (heap st)"
    "fullIndividualMap st = None \<or> fullIndividualMap st = Some w"
    by (auto simp: presample_def)
  from assms(4) True w have F: "heap st ! w = F" by (simp add: working_copy_def)
  from df_sample_ok[OF assms(2,3), of picks F] obtain smp where
    smp: "df_sample picks r None F = Inr smp" "columns smp = columns F" by blast
  from w(3) show ?thesis
  proof
    assume n: "fullIndividualMap st = None"
    have "sampleWithoutReplacement r None picks st =
        (Inr (), st\<lparr>fullIndividualMap := Some w, heap := heap st @ [smp],
                    individualMap := Some (length (heap st))\<rparr>)"
      using True n w F smp by (simp add: sampleWithoutReplacement_def isPanel_def)
    moreover have "sampled_from F (st\<lparr>fullIndividualMap := Some w, heap := heap st @ [smp],
                    individualMap := Some (length (heap st))\<rparr>)"
      using True w F smp by (simp add: sampled_from_def isPanel_def nth_append)
    ultimately show ?thesis using True by (simp add: isPanel_def)
  next
    assume n: "fullIndividualMap st = Some w"
    have "sampleWithoutReplacement r None picks st =
        (Inr (), st\<lparr>heap := heap st @ [smp], individualMap := Some (length (heap st))\<rparr>)"
      using True n w F smp by (simp add: sampleWithoutReplacement_def isPanel_def)
    moreover have "sampled_from F (st\<lparr>heap := heap st @ [smp],
                    individualMap := Some (length (heap st))\<rparr>)"
      using True n w F smp by (simp add: sampled_from_def isPanel_def nth_append)
    ultimately show ?thesis using True by (simp add: isPanel_def)
  qed
next
  case False
  with assms(1) have d: "data st < length (heap st)"
    "fullData st = None \<or> fullData st = Some (data st)"
    by (auto simp: presample_def)
  from assms(4) False have F: "heap st ! data st = F" by (simp add: working_copy_def)
  from df_sample_ok[OF assms(2,3), of picks F] obtain smp where
    smp: "df_sample picks r None F = Inr smp" "columns smp = columns F" by blast
  from d(2) show ?thesis
  proof
    assume n: "fullData st = None"
    have "sampleWithoutReplacement r None picks st =
        (Inr (), st\<lparr>fullData := Some (data st), heap := heap st @ [smp],
                    data := length (heap st)\<rparr>)"
      using False n F smp by (simp add: sampleWithoutReplacement_def)
    moreover have "sampled_from F (st\<lparr>fullData := Some (data st), heap := heap st @ [smp],
                    data := length (heap st)\<rparr>)"
      using False d F smp by (simp add: sampled_from_def isPanel_def nth_append)
    ultimately show ?thesis using False by (simp add: isPanel_def)
  next
    assume n: "fullData st = Some (data st)"
    have "sampleWithoutReplacement r None picks st =
        (Inr (), st\<lparr>heap := heap st @ [smp], data := length (heap st)\<rparr>)"
      using False n F smp by (simp add: sampleWithoutReplacement_def)
    moreover have "sampled_from F (st\<lparr>heap := heap st @ [smp], data := length (heap st)\<rparr>)"
      using False n d F smp by (simp add: sampled_from_def isPanel_def nth_append)
    ultimately show ?thesis using False by (simp add: isPanel_def)
  qed
qed

lemma sampled_sampled:
  assumes "sampled_from F st" "0 < r" "r \<le> 1"
  shows "\<exists>st1. sampleWithoutReplacement r None picks st = (Inr (), st1)
           \<and> sampled_from F st1 \<and> isPanel st1 = isPanel st"
proof (cases "isPanel st")
  case True
  with assms(1) obtain f w where fw: "fullIndividualMap st = Some f" "individualMap st = Some w"
    "f < length (heap st)" "w < length (heap st)" "heap st ! f = F"
    "columns (heap st ! w) = columns F"
    by (auto simp: sampled_from_def)
  from df_sample_ok[OF assms(2,3), of picks F] obtain smp where
    smp: "df_sample picks r None F = Inr smp" "columns smp = columns F" by blast
  have "sampleWithoutReplacement r None picks st =
        (Inr (), st\<lparr>heap := heap st @ [smp], individualMap := Some (length (heap st))\<rparr>)"
    using True fw smp by (simp add: sampleWithoutReplacement_def isPanel_def)
  moreover have "sampled_from F (st\<lparr>heap := heap st @ [smp],
                    individualMap := Some (length (heap st))\<rparr>)"
    using True fw smp by (simp add: sampled_from_def isPanel_def nth_append)
  ultimately show ?thesis using True by (simp add: isPanel_def)
next
  case False
  with assms(1) obtain f where fw: "fullData st = Some f"
    "f < length (heap st)" "data st < length (heap st)" "heap st ! f = F"
    "columns (heap st ! data st) = columns F"
    by (auto simp: sampled_from_def)
  from df_sample_ok[OF assms(2,3), of picks F] obtain smp where
    smp: "df_sample picks r None F = Inr smp" "columns smp = columns F" by blast
  have "sampleWithoutReplacement r None picks st =
        (Inr (), st\<lparr>heap := heap st @ [smp], data := length (heap st)\<rparr>)"
    using False fw smp by (simp add: sampleWithoutReplacement_def)
  moreover have "sampled_from F (st\<lparr>heap := heap st @ [smp], data := length (heap st)\<rparr>)"
    using False fw smp by (simp add: sampled_from_def isPanel_def nth_append)
  ultimately show ?thesis using False by (simp add: isPanel_def)
qed

lemma sample_calls_sampled:
  assumes "sampled_from F st" "\<forall>(r, picks)\<in>set calls. 0 < r \<and> r \<le> 1"
  shows "\<exists>st1. sample_calls calls st = (Inr (), st1)
           \<and> sampled_from F st1 \<and> isPanel st1 = isPanel st"
  using assms
proof (induction calls arbitrary: st)
  case Nil
  then show ?case by simp
next
  case (Cons call calls)
  obtain r picks where call: "call = (r, picks)" by (cases call)
  from Cons.prems(2) call have r: "0 < r" "r \<le> 1" by auto
  from sampled_sampled[OF Cons.prems(1) r, of picks] obtain st1 where
    s1: "sampleWithoutReplacement r None picks st = (Inr (), st1)"
    "sampled_from F st1" "isPanel st1 = isPanel st" by blast
  from Cons.prems(2) have rest: "\<forall>(r, picks)\<in>set calls. 0 < r \<and> r \<le> 1" by simp
  from Cons.IH[OF s1(2) rest] obtain st2 where
    "sample_calls calls st1 = (Inr (), st2)" "sampled_from F st2" "isPanel st2 = isPanel st1"
    by blast
  then show ?case using s1 call by simp
qed

lemma useFullSample_sampled:
  assumes "sampled_from F st"
  shows "\<exists>st2. useFullSample st = Inr st2 \<and> working_copy st2 = Some F
           \<and> isPanel st2 = isPanel st"
proof (cases "isPanel st")
  case True
  with assms obtain f where "fullIndividualMap st = Some f" "heap st ! f = F"
    by (auto simp: sampled_from_def)
  then show ?thesis using True
    by (simp add: useFullSample_def working_copy_def isPanel_def)
next
  case False
  with assms obtain f where "fullData st = Some f" "heap st ! f = F"
    by (auto simp: sampled_from_def)
  then show ?thesis using False
    by (simp add: useFullSample_def working_copy_def isPanel_def)
qed

lemma presample_working: "presample st \<Longrightarrow> \<exists>F. working_copy st = Some F"
  by (auto simp: presample_def working_copy_def split: if_splits)

text \<open>
  C5. On a database before its first sampling call, one or more calls of
  \<open>sampleWithoutReplacement\<close> with rates in \<open>(0, 1]\<close> and no weights all return, and
  \<open>useFullSample\<close> after them returns and makes the working copy (the data, or the
  individual map in panel mode) the very frame, row for row, that it was before the
  first call. \<open>useFullSample\<close> raises the error of a full copy that has not been saved
  when, in panel mode, no full individual map is saved, whatever \<open>fullData\<close> is, and
  when, out of panel mode, no full data is saved, whatever \<open>fullIndividualMap\<close> is.
\<close>

theorem useFullSample_restores:
  "(presample st \<longrightarrow> calls \<noteq> [] \<longrightarrow> (\<forall>(r, picks)\<in>set calls. 0 < r \<and> r \<le> 1) \<longrightarrow>
      (\<exists>st1 st2. sample_calls calls st = (Inr (), st1) \<and> useFullSample st1 = Inr st2
         \<and> working_copy st2 = working_copy st \<and> isPanel st2 = isPanel st))
   \<and> (isPanel st \<longrightarrow> fullIndividualMap st = None \<longrightarrow>
        useFullSample st = Inl (biogemeError [Txt ''Full panel data set has not been saved.'']))
   \<and> (\<not> isPanel st \<longrightarrow> fullData st = None \<longrightarrow>
        useFullSample st = Inl (biogemeError [Txt ''Full data set has not been saved.'']))"
proof (intro conjI impI)
  assume p: "presample st" and ne: "calls \<noteq> []"
    and rs: "\<forall>(r, picks)\<in>set calls. 0 < r \<and> r \<le> 1"
  from presample_working[OF p] obtain F where F: "working_copy st = Some F" by blast
  from ne obtain r picks rest where c: "calls = (r, picks) # rest"
    by (cases calls) auto
  from rs c have r: "0 < r" "r \<le> 1" and rest: "\<forall>(r, picks)\<in>set rest. 0 < r \<and> r \<le> 1"
    by auto
  from presample_sampled[OF p r F, of picks] obtain sa where
    sa: "sampleWithoutReplacement r None picks st = (Inr (), sa)" "sampled_from F sa"
    "isPanel sa = isPanel st" by blast
  from sample_calls_sampled[OF sa(2) rest] obtain st1 where
    s1: "sample_calls rest sa = (Inr (), st1)" "sampled_from F st1" "isPanel st1 = isPanel sa"
    by blast
  from useFullSample_sampled[OF s1(2)] obtain st2 where
    s2: "useFullSample st1 = Inr st2" "working_copy st2 = Some F" "isPanel st2 = isPanel st1"
    by blast
  have "sample_calls calls st = (Inr (), st1)" using c sa(1) s1(1) by simp
  with s2 s1(3) sa(3) F
  show "\<exists>st1 st2. sample_calls calls st = (Inr (), st1) \<and> useFullSample st1 = Inr st2
         \<and> working_copy st2 = working_copy st \<and> isPanel st2 = isPanel st"
    by auto
next
  assume "isPanel st" "fullIndividualMap st = None"
  then show "useFullSample st = Inl (biogemeError [Txt ''Full panel data set has not been saved.''])"
    by (simp add: useFullSample_def)
next
  assume "\<not> isPanel st" "fullData st = None"
  then show "useFullSample st = Inl (biogemeError [Txt ''Full data set has not been saved.''])"
    by (simp add: useFullSample_def)
qed

lemma presample_init: "presample (init dm nm df)"
  by (simp add: presample_def init_def isPanel_def)

lemma presample_addColumn:
  "presample st \<Longrightarrow> addColumn e c st = Inr (vs, st1) \<Longrightarrow> presample st1"
  by (auto simp: presample_def addColumn_def isPanel_def split: if_splits sum.splits)

lemma presample_scaleColumn:
  "presample st \<Longrightarrow> scaleColumn c x st = Inr st1 \<Longrightarrow> presample st1"
  by (auto simp: presample_def scaleColumn_def isPanel_def split: if_splits sum.splits)

lemma presample_remove:
  "presample st \<Longrightarrow> remove x st = Inr st1 \<Longrightarrow> presample st1"
  by (auto simp: presample_def remove_def addColumn_def isPanel_def Let_def
      split: if_splits sum.splits)

lemma presample_panel:
  assumes "valid_argsort argsort" "panel argsort c st = (Inr (), st1)"
  shows "presample st1"
proof (cases "col_values (heap st ! data st) c")
  case (Inl e)
  from panel_no_column[OF Inl, of argsort] assms(2) show ?thesis by simp
next
  case (Inr ks)
  have c1: "col_values (heap (st\<lparr>panelColumn := Some c\<rparr>) ! data (st\<lparr>panelColumn := Some c\<rparr>)) c
              = Inr ks" using Inr by simp
  from panel_unfold[OF assms(1) Inr] assms(2)
  have "buildPanelMap argsort (st\<lparr>panelColumn := Some c\<rparr>) = (Inr (), st1)"
    by (auto split: if_splits)
  with buildPanelMap_ok[OF assms(1) _ c1]
  show ?thesis by (auto simp: presample_def isPanel_def)
qed

lemma demo_presample: "presample demo_db"
  unfolding demo_db_def by (rule presample_init)

lemma demo_not_panel: "\<not> isPanel demo_db"
  by (simp add: demo_db_def init_def isPanel_def)

lemma demo_working: "working_copy demo_db = Some demo_frame"
  by (simp add: working_copy_def demo_db_def init_def isPanel_def)

lemma demo_wf: "wf_frame (heap demo_db ! data demo_db)"
  by (simp add: wf_frame_def demo_db_def init_def demo_frame_def)

lemma demo_full: "fullData demo_db = Some (data demo_db)" "data demo_db < length (heap demo_db)"
  by (simp_all add: demo_db_def init_def)


text \<open>
  The theorem at work: two sampling calls on the demo database, and the two errors, on
  a database in panel mode without a map and on one without a full copy.
\<close>

theorem useFullSample_restores_witness:
  "presample demo_db
   \<and> (\<exists>st1 st2. sample_calls [(1 / 2, [2, 0]), (1, [1])] demo_db = (Inr (), st1)
         \<and> useFullSample st1 = Inr st2 \<and> working_copy st2 = Some demo_frame)
   \<and> isPanel (demo_db\<lparr>panelColumn := Some (Name ''id'')\<rparr>)
   \<and> useFullSample (demo_db\<lparr>panelColumn := Some (Name ''id'')\<rparr>)
       = Inl (biogemeError [Txt ''Full panel data set has not been saved.''])
   \<and> useFullSample (demo_db\<lparr>fullData := None\<rparr>)
       = Inl (biogemeError [Txt ''Full data set has not been saved.''])"
proof -
  have c: "[(1 / 2, [2, 0]), (1, [1])] \<noteq> ([] :: (real \<times> nat list) list)" by simp
  have r: "\<forall>(r, picks)\<in>set [(1 / 2 :: real, [2, 0 :: nat]), (1, [1])]. 0 < r \<and> r \<le> 1"
    by simp
  note T1 = useFullSample_restores[of demo_db "[(1 / 2, [2, 0]), (1, [1])]",
      THEN conjunct1, THEN mp, THEN mp, THEN mp, OF demo_presample c r]
  have a: "\<exists>st1 st2. sample_calls [(1 / 2, [2, 0]), (1, [1])] demo_db = (Inr (), st1)
         \<and> useFullSample st1 = Inr st2 \<and> working_copy st2 = Some demo_frame"
    using T1 demo_working by auto
  have p: "isPanel (demo_db\<lparr>panelColumn := Some (Name ''id'')\<rparr>)"
    by (simp add: isPanel_def)
  have n: "fullIndividualMap (demo_db\<lparr>panelColumn := Some (Name ''id'')\<rparr>) = None"
    by (simp add: demo_db_def init_def)
  note T2 = useFullSample_restores[of "demo_db\<lparr>panelColumn := Some (Name ''id'')\<rparr>" "[]",
      THEN conjunct2, THEN conjunct1, THEN mp, THEN mp, OF p n]
  have q: "\<not> isPanel (demo_db\<lparr>fullData := None\<rparr>)" using demo_not_panel
    by (simp add: isPanel_def)
  have m: "fullData (demo_db\<lparr>fullData := None\<rparr>) = None" by simp
  note T3 = useFullSample_restores[of "demo_db\<lparr>fullData := None\<rparr>" "[]",
      THEN conjunct2, THEN conjunct2, THEN mp, THEN mp, OF q m]
  from demo_presample a p T2 T3 show ?thesis by blast
qed


section \<open>Sampling after a change of structure\<close>

lemma position_None: "c \<notin> set xs \<Longrightarrow> position c xs = None"
  by (induction xs) auto

lemma columns_setitem_new:
  "c \<notin> set (columns df) \<Longrightarrow> columns (df_setitem df c vs) = columns df @ [c]"
  by (simp add: df_setitem_def position_None)

lemma drift_message_added:
  assumes "c \<notin> set cs"
  shows "drift_message (set cs) (set (cs @ [c])) =
           [Txt ''The structure of the database has been modified since last sample. '',
            Txt '' Columns that were added: '', Labels {c}]"
proof -
  have "set cs - set (cs @ [c]) = {}" by auto
  moreover have "set (cs @ [c]) - set cs = {c}" using assms by auto
  ultimately show ?thesis by (simp only: drift_message_def) simp
qed

lemma drift_data:
  assumes "\<not> isPanel st" "fullData st = Some f"
    and "set (columns (heap st ! f)) \<noteq> set (columns (heap st ! data st))"
  shows "sampleWithoutReplacement r w picks st =
     (Inl (biogemeError (drift_message (set (columns (heap st ! f)))
                            (set (columns (heap st ! data st))))), st)"
  using assms by (simp add: sampleWithoutReplacement_def)

lemma drift_panel:
  assumes "isPanel st" "fullIndividualMap st = Some f" "individualMap st = Some m"
    and "set (columns (heap st ! f)) \<noteq> set (columns (heap st ! m))"
  shows "sampleWithoutReplacement r w picks st =
     (Inl (biogemeError (drift_message (set (columns (heap st ! f)))
                            (set (columns (heap st ! m))))), st)"
  using assms by (simp add: sampleWithoutReplacement_def)

lemma first_sample_data:
  assumes "\<not> isPanel st" "presample st"
    and "sampleWithoutReplacement r w picks st = (Inr (), st1)"
  shows "\<exists>smp. st1 = st\<lparr>fullData := Some (data st), heap := heap st @ [smp],
                         data := length (heap st)\<rparr>
           \<and> columns smp = columns (heap st ! data st) \<and> data st < length (heap st)"
proof -
  from assms(1,2) have d: "data st < length (heap st)"
    "fullData st = None \<or> fullData st = Some (data st)"
    by (auto simp: presample_def)
  from d(2) show ?thesis
  proof
    assume n: "fullData st = None"
    with assms(1,3) obtain smp where
      "df_sample picks r w (heap st ! data st) = Inr smp"
      "st1 = st\<lparr>fullData := Some (data st), heap := heap st @ [smp], data := length (heap st)\<rparr>"
      by (auto simp: sampleWithoutReplacement_def split: sum.splits)
    then show ?thesis using d(1) df_sample_columns by blast
  next
    assume n: "fullData st = Some (data st)"
    with assms(1,3) obtain smp where
      "df_sample picks r w (heap st ! data st) = Inr smp"
      "st1 = st\<lparr>heap := heap st @ [smp], data := length (heap st)\<rparr>"
      by (auto simp: sampleWithoutReplacement_def split: sum.splits)
    moreover have "st\<lparr>heap := heap st @ [smp], data := length (heap st)\<rparr>
        = st\<lparr>fullData := Some (data st), heap := heap st @ [smp], data := length (heap st)\<rparr>"
      using n by simp
    ultimately show ?thesis using d(1) df_sample_columns by metis
  qed
qed

lemma first_sample_panel:
  assumes "isPanel st" "presample st"
    and "sampleWithoutReplacement r w picks st = (Inr (), st1)"
  shows "\<exists>smp f. st1 = st\<lparr>fullIndividualMap := Some f, heap := heap st @ [smp],
                         individualMap := Some (length (heap st))\<rparr>
           \<and> columns smp = columns (heap st ! f) \<and> f < length (heap st)"
proof -
  from assms(1,2) obtain m where d: "individualMap st = Some m" "m < length (heap st)"
    "fullIndividualMap st = None \<or> fullIndividualMap st = Some m"
    by (auto simp: presample_def)
  from d(3) show ?thesis
  proof
    assume n: "fullIndividualMap st = None"
    with assms(1,3) d(1) obtain smp where
      "df_sample picks r w (heap st ! m) = Inr smp"
      "st1 = st\<lparr>fullIndividualMap := Some m, heap := heap st @ [smp],
                 individualMap := Some (length (heap st))\<rparr>"
      by (auto simp: sampleWithoutReplacement_def split: sum.splits)
    then show ?thesis using d(2) df_sample_columns by blast
  next
    assume n: "fullIndividualMap st = Some m"
    with assms(1,3) d(1) obtain smp where
      "df_sample picks r w (heap st ! m) = Inr smp"
      "st1 = st\<lparr>heap := heap st @ [smp], individualMap := Some (length (heap st))\<rparr>"
      by (auto simp: sampleWithoutReplacement_def split: sum.splits)
    moreover have "st\<lparr>heap := heap st @ [smp], individualMap := Some (length (heap st))\<rparr>
        = st\<lparr>fullIndividualMap := Some m, heap := heap st @ [smp],
             individualMap := Some (length (heap st))\<rparr>"
      using n by simp
    ultimately show ?thesis using d(2) df_sample_columns by metis
  qed
qed

lemma addColumn_Inr:
  assumes "addColumn e c st = Inr (vs, st1)"
  shows "c \<notin> set (columns (heap st ! data st))
     \<and> apply_rows e (rows_of (heap st ! data st)) = Inr vs
     \<and> st1 = st\<lparr>heap := (heap st)[data st := df_setitem (heap st ! data st) c vs],
               variables := (if c \<in> set (variables st) then variables st
                             else variables st @ [c])\<rparr>"
  using assms by (auto simp: addColumn_def split: if_splits sum.splits)

text \<open>
  C6. Whenever a full copy is saved and its set of column labels differs from that of
  the working copy, \<open>sampleWithoutReplacement\<close> raises the error of a modified structure
  and leaves the database as it is; the message lists the labels on one side only, the
  disappeared ones and the added ones. In particular, after a first sampling call on a
  database before its first sample, a column \<open>c\<close> added to the data by \<open>addColumn\<close>, or
  set on the working individual map in panel mode, makes the next sampling call raise
  that error with \<open>c\<close> as the one added column and none disappeared.
\<close>

theorem sampling_detects_drift:
  "(\<not> isPanel st \<longrightarrow> fullData st = Some f \<longrightarrow>
      set (columns (heap st ! f)) \<noteq> set (columns (heap st ! data st)) \<longrightarrow>
      sampleWithoutReplacement r w picks st =
        (Inl (biogemeError (drift_message (set (columns (heap st ! f)))
                               (set (columns (heap st ! data st))))), st))
   \<and> (isPanel st \<longrightarrow> fullIndividualMap st = Some f \<longrightarrow> individualMap st = Some m \<longrightarrow>
      set (columns (heap st ! f)) \<noteq> set (columns (heap st ! m)) \<longrightarrow>
      sampleWithoutReplacement r w picks st =
        (Inl (biogemeError (drift_message (set (columns (heap st ! f)))
                               (set (columns (heap st ! m))))), st))
   \<and> (\<not> isPanel st \<longrightarrow> presample st \<longrightarrow>
      sampleWithoutReplacement r1 w1 picks1 st = (Inr (), st1) \<longrightarrow>
      addColumn e c st1 = Inr (vs, st2) \<longrightarrow>
      sampleWithoutReplacement r w picks st2 =
        (Inl (biogemeError
               [Txt ''The structure of the database has been modified since last sample. '',
                Txt '' Columns that were added: '', Labels {c}]), st2))
   \<and> (isPanel st \<longrightarrow> presample st \<longrightarrow>
      sampleWithoutReplacement r1 w1 picks1 st = (Inr (), st1) \<longrightarrow>
      individualMap st1 = Some m \<longrightarrow> c \<notin> set (columns (heap st1 ! m)) \<longrightarrow>
      sampleWithoutReplacement r w picks
          (st1\<lparr>heap := (heap st1)[m := df_setitem (heap st1 ! m) c vs]\<rparr>) =
        (Inl (biogemeError
               [Txt ''The structure of the database has been modified since last sample. '',
                Txt '' Columns that were added: '', Labels {c}]),
         st1\<lparr>heap := (heap st1)[m := df_setitem (heap st1 ! m) c vs]\<rparr>))"
proof (intro conjI impI)
  assume "\<not> isPanel st" "fullData st = Some f"
    "set (columns (heap st ! f)) \<noteq> set (columns (heap st ! data st))"
  then show "sampleWithoutReplacement r w picks st =
        (Inl (biogemeError (drift_message (set (columns (heap st ! f)))
                               (set (columns (heap st ! data st))))), st)"
    by (rule drift_data)
next
  assume "isPanel st" "fullIndividualMap st = Some f" "individualMap st = Some m"
    "set (columns (heap st ! f)) \<noteq> set (columns (heap st ! m))"
  then show "sampleWithoutReplacement r w picks st =
        (Inl (biogemeError (drift_message (set (columns (heap st ! f)))
                               (set (columns (heap st ! m))))), st)"
    by (rule drift_panel)
next
  assume np: "\<not> isPanel st" and ps: "presample st"
    and s1: "sampleWithoutReplacement r1 w1 picks1 st = (Inr (), st1)"
    and ac: "addColumn e c st1 = Inr (vs, st2)"
  from first_sample_data[OF np ps s1] obtain smp where
    st1: "st1 = st\<lparr>fullData := Some (data st), heap := heap st @ [smp],
                         data := length (heap st)\<rparr>"
    and cs: "columns smp = columns (heap st ! data st)" and d: "data st < length (heap st)"
    by blast
  from addColumn_Inr[OF ac] have fresh: "c \<notin> set (columns (heap st1 ! data st1))"
    and st2: "st2 = st1\<lparr>heap := (heap st1)[data st1 := df_setitem (heap st1 ! data st1) c vs],
               variables := (if c \<in> set (variables st1) then variables st1
                             else variables st1 @ [c])\<rparr>"
    by simp_all
  from fresh have fresh': "c \<notin> set (columns smp)" by (simp add: st1)
  have p2: "\<not> isPanel st2" using np by (simp add: st2 st1 isPanel_def)
  have f2: "fullData st2 = Some (data st)" by (simp add: st2 st1)
  have full: "columns (heap st2 ! data st) = columns smp"
    using d cs by (simp add: st2 st1 nth_append)
  have work: "columns (heap st2 ! data st2) = columns smp @ [c]"
    using fresh' by (simp add: st2 st1 columns_setitem_new)
  have ne: "set (columns (heap st2 ! data st)) \<noteq> set (columns (heap st2 ! data st2))"
    using fresh' by (auto simp: full work)
  show "sampleWithoutReplacement r w picks st2 =
        (Inl (biogemeError
               [Txt ''The structure of the database has been modified since last sample. '',
                Txt '' Columns that were added: '', Labels {c}]), st2)"
    using drift_data[OF p2 f2 ne, of r w picks] drift_message_added[OF fresh']
    by (simp add: full work)
next
  assume ip: "isPanel st" and ps: "presample st"
    and s1: "sampleWithoutReplacement r1 w1 picks1 st = (Inr (), st1)"
    and m: "individualMap st1 = Some m" and fresh: "c \<notin> set (columns (heap st1 ! m))"
  let ?st2 = "st1\<lparr>heap := (heap st1)[m := df_setitem (heap st1 ! m) c vs]\<rparr>"
  from first_sample_panel[OF ip ps s1] obtain smp f where
    st1: "st1 = st\<lparr>fullIndividualMap := Some f, heap := heap st @ [smp],
                         individualMap := Some (length (heap st))\<rparr>"
    and cs: "columns smp = columns (heap st ! f)" and d: "f < length (heap st)"
    by blast
  from m have m': "m = length (heap st)" by (simp add: st1)
  from fresh have fresh': "c \<notin> set (columns smp)" by (simp add: st1 m')
  have p2: "isPanel ?st2" using ip by (simp add: st1 isPanel_def)
  have f2: "fullIndividualMap ?st2 = Some f" by (simp add: st1)
  have m2: "individualMap ?st2 = Some m" by (simp add: st1 m')
  have full: "columns (heap ?st2 ! f) = columns smp"
    using d cs by (simp add: st1 m' nth_append)
  have work: "columns (heap ?st2 ! m) = columns smp @ [c]"
    using fresh' by (simp add: st1 m' columns_setitem_new)
  have ne: "set (columns (heap ?st2 ! f)) \<noteq> set (columns (heap ?st2 ! m))"
    unfolding full work using fresh' by auto
  show "sampleWithoutReplacement r w picks ?st2 =
        (Inl (biogemeError
               [Txt ''The structure of the database has been modified since last sample. '',
                Txt '' Columns that were added: '', Labels {c}]), ?st2)"
    using drift_panel[OF p2 f2 m2 ne, of r w picks]
    unfolding full work drift_message_added[OF fresh'] .
qed

lemma demo_first_sample:
  "sampleWithoutReplacement (1 / 2) None [2, 0] demo_db =
     (Inr (), demo_db\<lparr>heap := [demo_frame,
                 \<lparr>columns = [Name ''id'', Name ''x''], index = [2, 0],
                  cells = [[2, 30], [1, 10]]\<rparr>],
               data := 1\<rparr>)"
  by (simp add: sampleWithoutReplacement_def isPanel_def demo_db_def init_def df_sample_def
      df_iloc_def demo_frame_def)

lemma demo_addColumn:
  "addColumn (\<lambda>r. Inr (fst r + 5)) (Name ''w'')
      (demo_db\<lparr>heap := [demo_frame,
                 \<lparr>columns = [Name ''id'', Name ''x''], index = [2, 0],
                  cells = [[2, 30], [1, 10]]\<rparr>],
               data := 1\<rparr>)
    = Inr ([7, 5],
        demo_db\<lparr>heap := [demo_frame,
                 \<lparr>columns = [Name ''id'', Name ''x'', Name ''w''], index = [2, 0],
                  cells = [[2, 30, 7], [1, 10, 5]]\<rparr>],
               data := 1, variables := [Name ''id'', Name ''x'', Name ''w'']\<rparr>)"
  by (simp add: addColumn_def rows_of_def df_setitem_def demo_db_def init_def demo_frame_def)

text \<open>The theorem at work: a sample of the demo database, a column \<open>w\<close>, a second sample.\<close>

theorem sampling_detects_drift_witness:
  "\<not> isPanel demo_db \<and> presample demo_db
   \<and> (\<exists>st1 vs st2.
         sampleWithoutReplacement (1 / 2) None [2, 0] demo_db = (Inr (), st1)
       \<and> addColumn (\<lambda>r. Inr (fst r + 5)) (Name ''w'') st1 = Inr (vs, st2)
       \<and> sampleWithoutReplacement 1 None [0] st2 =
           (Inl (biogemeError
               [Txt ''The structure of the database has been modified since last sample. '',
                Txt '' Columns that were added: '', Labels {Name ''w''}]), st2))"
proof -
  note T = sampling_detects_drift[THEN conjunct2, THEN conjunct2, THEN conjunct1, THEN mp,
      THEN mp, THEN mp, THEN mp, OF demo_not_panel demo_presample demo_first_sample demo_addColumn]
  from demo_not_panel demo_presample demo_first_sample demo_addColumn T[of 1 None "[0]"]
  show ?thesis by blast
qed


section \<open>Changes before the first sample\<close>

lemma position_append_new: "c \<notin> set xs \<Longrightarrow> position c (xs @ [c]) = Some (length xs)"
  by (induction xs) auto

lemma apply_rows_length: "apply_rows f rs = Inr vs \<Longrightarrow> length vs = length rs"
  by (induction rs arbitrary: vs) (auto split: sum.splits)

lemma wf_frame_rows: "wf_frame df \<Longrightarrow> length (rows_of df) = length (cells df)"
  by (simp add: wf_frame_def rows_of_def)

lemma strip_flag:
  assumes "length row = length cols" "b \<notin> set cols"
  shows "map snd (filter (\<lambda>(c', v). c' \<noteq> b) (zip (cols @ [b]) (row @ [v]))) = row"
proof -
  have z: "zip (cols @ [b]) (row @ [v]) = zip cols row @ [(b, v)]"
    using assms(1) by simp
  have "\<forall>x\<in>set (zip cols row). (\<lambda>(c', v). c' \<noteq> b) x"
    using assms(2) by (auto dest: set_zip_leftD)
  then have "filter (\<lambda>(c', v). c' \<noteq> b) (zip cols row) = zip cols row"
    by (simp only: filter_id_conv)
  then show ?thesis using assms(1) by (simp add: z)
qed

lemma strip_none:
  assumes "length row = length cols" "b \<notin> set cols"
  shows "map snd (filter (\<lambda>(c', v). c' \<noteq> b) (zip cols row)) = row"
proof -
  have "\<forall>x\<in>set (zip cols row). (\<lambda>(c', v). c' \<noteq> b) x"
    using assms(2) by (auto dest: set_zip_leftD)
  then have "filter (\<lambda>(c', v). c' \<noteq> b) (zip cols row) = zip cols row"
    by (simp only: filter_id_conv)
  then show ?thesis using assms(1) by simp
qed

lemma flags_read_back:
  assumes "length cs = length fl" "\<forall>row\<in>set cs. length row = n"
  shows "map (\<lambda>row. row ! n) (map (\<lambda>(row, v). row @ [v]) (zip cs fl)) = fl"
  using assms by (induction cs fl rule: list_induct2) auto

lemma drop_after_flag:
  assumes "length idx = length cs" "length cs = length fl"
    and "\<forall>row\<in>set cs. length row = length cols" "b \<notin> set cols"
  shows "map (\<lambda>row. map snd (filter (\<lambda>(c', v). c' \<noteq> b) (zip (cols @ [b]) row)))
           (map snd (filter (\<lambda>(l, row). l \<notin> L)
                       (zip idx (map (\<lambda>(row, v). row @ [v]) (zip cs fl)))))
         = map snd (filter (\<lambda>(l, row). l \<notin> L) (zip idx cs))
     \<and> map fst (filter (\<lambda>(l, row). l \<notin> L) (zip idx (map (\<lambda>(row, v). row @ [v]) (zip cs fl))))
         = map fst (filter (\<lambda>(l, row). l \<notin> L) (zip idx cs))"
  using assms
  by (induction idx cs fl rule: list_induct3) (auto simp: strip_flag strip_none)

lemma remove_Inr:
  assumes "remove x st = Inr st2" "wf_frame (heap st ! data st)" "data st < length (heap st)"
  shows "\<exists>flags. apply_rows (as_expression x) (rows_of (heap st ! data st)) = Inr flags
     \<and> heap st2 ! data st2 =
          df_drop_rows (map fst (filter (\<lambda>(l, v). v \<noteq> 0) (zip (index (heap st ! data st)) flags)))
            (heap st ! data st)
     \<and> data st2 = data st \<and> fullData st2 = fullData st \<and> panelColumn st2 = panelColumn st
     \<and> length (heap st2) = length (heap st)"
proof -
  let ?b = "Name ''__bioRemove__''"
  let ?df = "heap st ! data st"
  from assms(1) obtain flags st1 where ac: "addColumn (as_expression x) ?b st = Inr (flags, st1)"
    by (auto simp: remove_def Let_def split: sum.splits)
  from addColumn_Inr[OF ac] have fresh: "?b \<notin> set (columns ?df)"
    and ap: "apply_rows (as_expression x) (rows_of ?df) = Inr flags"
    and st1: "st1 = st\<lparr>heap := (heap st)[data st := df_setitem ?df ?b flags],
               variables := (if ?b \<in> set (variables st) then variables st
                             else variables st @ [?b])\<rparr>"
    by simp_all
  from assms(2) have len_ic: "length (index ?df) = length (cells ?df)"
    and rows: "\<forall>row\<in>set (cells ?df). length row = length (columns ?df)"
    by (simp_all add: wf_frame_def list_all_iff)
  have len_fl: "length (cells ?df) = length flags"
    using apply_rows_length[OF ap] wf_frame_rows[OF assms(2)] by simp
  let ?df1 = "df_setitem ?df ?b flags"
  have df1: "?df1 = ?df\<lparr>columns := columns ?df @ [?b],
                   cells := map (\<lambda>(row, v). row @ [v]) (zip (cells ?df) flags)\<rparr>"
    using fresh by (simp add: df_setitem_def position_None)
  have h1: "heap st1 ! data st1 = ?df1" using assms(3) by (simp add: st1)
  have cv: "col_values ?df1 ?b = Inr flags"
    using fresh flags_read_back[OF len_fl rows]
    by (simp add: df1 col_values_def position_append_new)
  let ?labels = "map fst (filter (\<lambda>(l, v). v \<noteq> 0) (zip (index ?df) flags))"
  have st2: "st2 = st1\<lparr>excludedData := length ?labels,
                    heap := (heap st1)[data st1 := df_drop_column ?b (df_drop_rows ?labels ?df1)]\<rparr>"
    using assms(1) ac cv h1 by (simp add: remove_def Let_def df1)
  note d = drop_after_flag[OF len_ic len_fl rows fresh, of "set ?labels"]
  have fc: "filter (\<lambda>c'. c' \<noteq> ?b) (columns ?df) = columns ?df"
    using fresh by (simp only: filter_id_conv) blast
  have "df_drop_column ?b (df_drop_rows ?labels ?df1) = df_drop_rows ?labels ?df"
    using fresh d fc by (simp add: df1 df_drop_column_def df_drop_rows_def)
  then have "heap st2 ! data st2 = df_drop_rows ?labels ?df"
    using assms(3) by (simp add: st2 st1)
  with ap show ?thesis by (auto simp: st2 st1)
qed

text \<open>
  C10. Out of panel mode, while \<open>fullData\<close> refers to the frame that \<open>data\<close> refers to,
  as the constructor leaves them, \<open>addColumn\<close> and \<open>remove\<close> change that one frame:
  afterwards \<open>fullData\<close> still refers to the data, \<open>useFullSample\<close> leaves the database
  as it is, and the frame is the changed one, with the new column last, or without the
  rows whose index label is that of a row where the expression is not 0.
\<close>

theorem mutations_reach_full_copy:
  assumes "\<not> isPanel st" and "fullData st = Some (data st)" and "data st < length (heap st)"
  shows "(addColumn e c st = Inr (vs, st1) \<longrightarrow>
            fullData st1 = Some (data st1) \<and> useFullSample st1 = Inr st1
          \<and> heap st1 ! data st1 = df_setitem (heap st ! data st) c vs
          \<and> columns (heap st1 ! data st1) = columns (heap st ! data st) @ [c]
          \<and> heap st1 ! data st1 \<noteq> heap st ! data st)
       \<and> (wf_frame (heap st ! data st) \<longrightarrow> remove x st = Inr st2 \<longrightarrow>
            (\<exists>flags. apply_rows (as_expression x) (rows_of (heap st ! data st)) = Inr flags
              \<and> fullData st2 = Some (data st2) \<and> useFullSample st2 = Inr st2
              \<and> heap st2 ! data st2 =
                  df_drop_rows
                    (map fst (filter (\<lambda>(l, v). v \<noteq> 0) (zip (index (heap st ! data st)) flags)))
                    (heap st ! data st)))
       \<and> \<not> isPanel (init dm nm df)
       \<and> fullData (init dm nm df) = Some (data (init dm nm df))
       \<and> data (init dm nm df) < length (heap (init dm nm df))
       \<and> heap (init dm nm df) ! data (init dm nm df) = df"
proof (intro conjI impI)
  assume ac: "addColumn e c st = Inr (vs, st1)"
  from addColumn_Inr[OF ac] have fresh: "c \<notin> set (columns (heap st ! data st))"
    and st1: "st1 = st\<lparr>heap := (heap st)[data st := df_setitem (heap st ! data st) c vs],
               variables := (if c \<in> set (variables st) then variables st
                             else variables st @ [c])\<rparr>"
    by simp_all
  show f: "fullData st1 = Some (data st1)" using assms(2) by (simp add: st1)
  have np: "\<not> isPanel st1" using assms(1) by (simp add: st1 isPanel_def)
  show "useFullSample st1 = Inr st1" using np f by (simp add: useFullSample_def)
  show h: "heap st1 ! data st1 = df_setitem (heap st ! data st) c vs"
    using assms(3) by (simp add: st1)
  show cs: "columns (heap st1 ! data st1) = columns (heap st ! data st) @ [c]"
    unfolding h using fresh by (rule columns_setitem_new)
  show "heap st1 ! data st1 \<noteq> heap st ! data st"
  proof
    assume "heap st1 ! data st1 = heap st ! data st"
    then have "columns (heap st1 ! data st1) = columns (heap st ! data st)" by simp
    with cs show False by simp
  qed
next
  assume wf: "wf_frame (heap st ! data st)" and rm: "remove x st = Inr st2"
  from remove_Inr[OF rm wf assms(3)] obtain flags where
    fl: "apply_rows (as_expression x) (rows_of (heap st ! data st)) = Inr flags"
    and h: "heap st2 ! data st2 =
          df_drop_rows (map fst (filter (\<lambda>(l, v). v \<noteq> 0) (zip (index (heap st ! data st)) flags)))
            (heap st ! data st)"
    and k: "data st2 = data st" "fullData st2 = fullData st" "panelColumn st2 = panelColumn st"
    by blast
  have f: "fullData st2 = Some (data st2)" using k assms(2) by simp
  have np: "\<not> isPanel st2" using assms(1) k by (simp add: isPanel_def)
  have u: "useFullSample st2 = Inr st2" using np f by (simp add: useFullSample_def)
  from fl f u h
  show "\<exists>flags. apply_rows (as_expression x) (rows_of (heap st ! data st)) = Inr flags
              \<and> fullData st2 = Some (data st2) \<and> useFullSample st2 = Inr st2
              \<and> heap st2 ! data st2 =
                  df_drop_rows
                    (map fst (filter (\<lambda>(l, v). v \<noteq> 0) (zip (index (heap st ! data st)) flags)))
                    (heap st ! data st)"
    by blast
qed (simp_all add: init_def isPanel_def)

lemma demo_addColumn0:
  "addColumn (\<lambda>r. Inr (fst r + 5)) (Name ''w'') demo_db
    = Inr ([5, 6, 7],
        demo_db\<lparr>heap := [\<lparr>columns = [Name ''id'', Name ''x'', Name ''w''], index = [0, 1, 2],
                  cells = [[1, 10, 5], [1, 20, 6], [2, 30, 7]]\<rparr>],
               variables := [Name ''id'', Name ''x'', Name ''w'']\<rparr>)"
  by (simp add: addColumn_def rows_of_def df_setitem_def demo_db_def init_def demo_frame_def)

lemma demo_remove:
  "remove (Expression (\<lambda>r. Inr (if fst r = 1 then 1 else 0))) demo_db
    = Inr (demo_db\<lparr>heap := [\<lparr>columns = [Name ''id'', Name ''x''], index = [0, 2],
                  cells = [[1, 10], [2, 30]]\<rparr>],
               variables := [Name ''id'', Name ''x'', Name ''__bioRemove__''],
               excludedData := 1\<rparr>)"
  by (simp add: remove_def addColumn_def rows_of_def df_setitem_def demo_db_def init_def
      demo_frame_def col_values_def df_drop_rows_def df_drop_column_def Let_def
      del: set_filter set_map)

lemma demo_columns: "columns (heap demo_db ! data demo_db) = [Name ''id'', Name ''x'']"
  by (simp add: demo_db_def init_def demo_frame_def)

text \<open>The theorem at work: a column added to, and a row removed from, the demo database.\<close>

theorem mutations_reach_full_copy_witness:
  "\<not> isPanel demo_db \<and> fullData demo_db = Some (data demo_db)
   \<and> wf_frame (heap demo_db ! data demo_db)
   \<and> (\<exists>vs st1. addColumn (\<lambda>r. Inr (fst r + 5)) (Name ''w'') demo_db = Inr (vs, st1)
         \<and> useFullSample st1 = Inr st1
         \<and> columns (heap st1 ! data st1) = [Name ''id'', Name ''x'', Name ''w''])
   \<and> (\<exists>st2. remove (Expression (\<lambda>r. Inr (if fst r = 1 then 1 else 0))) demo_db = Inr st2
         \<and> useFullSample st2 = Inr st2
         \<and> index (heap st2 ! data st2) = [0, 2]
         \<and> cells (heap st2 ! data st2) = [[1, 10], [2, 30]])"
proof -
  note T = mutations_reach_full_copy[OF demo_not_panel demo_full]
  obtain vs st1 where ac: "addColumn (\<lambda>r. Inr (fst r + 5)) (Name ''w'') demo_db = Inr (vs, st1)"
    using demo_addColumn0 by blast
  from T[THEN conjunct1, THEN mp, OF ac]
  have "useFullSample st1 = Inr st1"
    and "columns (heap st1 ! data st1) = columns (heap demo_db ! data demo_db) @ [Name ''w'']"
    by blast+
  then have a: "\<exists>vs st1. addColumn (\<lambda>r. Inr (fst r + 5)) (Name ''w'') demo_db = Inr (vs, st1)
         \<and> useFullSample st1 = Inr st1
         \<and> columns (heap st1 ! data st1) = [Name ''id'', Name ''x'', Name ''w'']"
    using ac by (auto simp only: demo_columns append.simps)
  define st2 where "st2 = demo_db\<lparr>heap := [\<lparr>columns = [Name ''id'', Name ''x''], index = [0, 2],
                  cells = [[1, 10], [2, 30]]\<rparr>],
               variables := [Name ''id'', Name ''x'', Name ''__bioRemove__''],
               excludedData := 1\<rparr>"
  have rm: "remove (Expression (\<lambda>r. Inr (if fst r = 1 then 1 else 0))) demo_db = Inr st2"
    unfolding st2_def by (rule demo_remove)
  have fr: "index (heap st2 ! data st2) = [0, 2]" "cells (heap st2 ! data st2) = [[1, 10], [2, 30]]"
    by (simp_all add: st2_def demo_db_def init_def)
  from T[THEN conjunct2, THEN conjunct1, THEN mp, THEN mp, OF demo_wf rm]
  have "useFullSample st2 = Inr st2" by blast
  with rm fr have b: "\<exists>st2. remove (Expression (\<lambda>r. Inr (if fst r = 1 then 1 else 0))) demo_db = Inr st2
         \<and> useFullSample st2 = Inr st2
         \<and> index (heap st2 ! data st2) = [0, 2]
         \<and> cells (heap st2 ! data st2) = [[1, 10], [2, 30]]"
    by blast
  from demo_not_panel demo_full(1) demo_wf a b show ?thesis by blast
qed

section \<open>Splitting into estimation and validation sets\<close>

lemma sum_split_sizes: "0 < k \<Longrightarrow> sum_list (split_sizes N k) = N"
proof -
  assume k: "0 < k"
  have "N mod k \<le> k" using k by (simp add: less_imp_le)
  then have "sum_list (split_sizes N k) = (N mod k) * (N div k + 1) + (k - N mod k) * (N div k)"
    by (simp add: split_sizes_def sum_list_replicate)
  also have "\<dots> = (N mod k + (k - N mod k)) * (N div k) + N mod k"
    by (simp add: algebra_simps)
  also have "\<dots> = k * (N div k) + N mod k" using \<open>N mod k \<le> k\<close> by simp
  also have "\<dots> = N" by simp
  finally show ?thesis .
qed

lemma length_split_sizes: "0 < k \<Longrightarrow> length (split_sizes N k) = k"
  by (simp add: split_sizes_def less_imp_le)

lemma length_chunks: "length (chunks ns xs) = length ns"
  by (induction ns arbitrary: xs) auto

lemma concat_chunks: "length xs \<le> sum_list ns \<Longrightarrow> concat (chunks ns xs) = xs"
  by (induction ns arbitrary: xs) auto

lemma collect_all:
  assumes "\<forall>r\<in>set rs. \<exists>x. r = Inr x"
  shows "collect rs = Inr (map projr rs)"
  using assms by (induction rs) auto

lemma df_rows_block:
  "df_rows \<lparr>columns = cs, index = map fst block, cells = map snd block\<rparr> = block"
  by (simp add: df_rows_def zip_map_fst_snd)

lemma zip_concat:
  assumes "\<forall>f\<in>set fs. length (index f) = length (cells f)"
  shows "zip (concat (map index fs)) (concat (map cells fs)) = concat (map df_rows fs)"
  using assms by (induction fs) (auto simp: df_rows_def)

lemma pd_concat_rows:
  assumes "fs \<noteq> []" "\<forall>f\<in>set fs. length (index f) = length (cells f)"
  shows "\<exists>F. pd_concat fs = Inr F \<and> df_rows F = concat (map df_rows fs)"
  using assms zip_concat[OF assms(2)]
  by (cases fs) (auto simp: pd_concat_def df_rows_def)

lemma concat_without:
  assumes "i < length xss"
  shows "mset (concat (take i xss @ drop (Suc i) xss)) + mset (xss ! i) = mset (concat xss)"
proof -
  have "xss = take i xss @ xss ! i # drop (Suc i) xss"
    using assms by (rule id_take_nth_drop)
  then have "mset (concat xss) = mset (concat (take i xss @ xss ! i # drop (Suc i) xss))"
    by simp
  then show ?thesis by simp
qed

lemma disjoint_in_concat:
  assumes "distinct (concat xss)" "i < j" "j < length xss"
  shows "set (xss ! i) \<inter> set (xss ! j) = {}"
  using assms
proof (induction xss arbitrary: i j)
  case Nil
  then show ?case by simp
next
  case (Cons xs xss)
  from Cons.prems(2) obtain j' where j: "j = Suc j'" by (cases j) auto
  show ?case
  proof (cases i)
    case 0
    from Cons.prems(3) j have "xss ! j' \<in> set xss" by simp
    with Cons.prems(1) have "set xs \<inter> set (xss ! j') = {}" by auto
    with 0 j show ?thesis by simp
  next
    case (Suc i')
    with Cons.prems j have "distinct (concat xss)" "i' < j'" "j' < length xss" by auto
    from Cons.IH[OF this] Suc j show ?thesis by simp
  qed
qed

lemma zip_picked:
  assumes "\<forall>p\<in>set ps. p < length xs \<and> p < length ys"
  shows "zip (map (\<lambda>p. xs ! p) ps) (map (\<lambda>p. ys ! p) ps) = map (\<lambda>p. zip xs ys ! p) ps"
  using assms by (induction ps) auto

lemma shuffled_rows:
  assumes "length (index df) = length (cells df)" "mset picks = mset [0..<length (cells df)]"
  shows "\<exists>sh. df_sample picks 1 None df = Inr sh \<and> columns sh = columns df
           \<and> mset (df_rows sh) = mset (df_rows df)
           \<and> map fst (df_rows sh) = map (\<lambda>p. index df ! p) picks"
proof -
  let ?N = "length (cells df)"
  from assms(2) have "set picks = set [0..<?N]" by (rule mset_eq_setD)
  then have inr: "\<forall>p\<in>set picks. p < ?N" by simp
  then have keep: "filter (\<lambda>p. p < length (index df) \<and> p < ?N) picks = picks"
    using assms(1) by (simp only: filter_id_conv) simp
  have sh: "df_sample picks 1 None df = Inr (df_iloc df picks)"
    by (simp add: df_sample_def keep)
  have rows: "df_rows (df_iloc df picks) = map (\<lambda>p. df_rows df ! p) picks"
    using inr assms(1) zip_picked[of picks "index df" "cells df"]
    by (simp add: df_rows_def df_iloc_def)
  have "mset (map (\<lambda>p. df_rows df ! p) picks) = image_mset (\<lambda>p. df_rows df ! p) (mset [0..<?N])"
    using assms(2) by simp
  also have "\<dots> = mset (map (\<lambda>p. df_rows df ! p) [0..<length (df_rows df)])"
    using assms(1) by (simp add: df_rows_def)
  also have "\<dots> = mset (df_rows df)" by (simp only: map_nth)
  finally have m: "mset (df_rows (df_iloc df picks)) = mset (df_rows df)" by (simp only: rows)
  have f: "map fst (df_rows (df_iloc df picks)) = map (\<lambda>p. index df ! p) picks"
    by (simp add: df_rows_def df_iloc_def)
  from sh m f show ?thesis by (auto simp: df_iloc_def)
qed


lemma estimation_sets:
  assumes "2 \<le> length sl" "\<forall>f\<in>set sl. length (index f) = length (cells f)"
  shows "\<exists>est. collect (map (\<lambda>i. pd_concat (take i sl @ drop (Suc i) sl)) [0..<length sl])
                  = Inr est
           \<and> length est = length sl
           \<and> (\<forall>i<length sl. df_rows (est ! i)
                  = concat (map df_rows (take i sl @ drop (Suc i) sl)))"
proof -
  let ?others = "\<lambda>i. take i sl @ drop (Suc i) sl"
  let ?rs = "map (\<lambda>i. pd_concat (?others i)) [0..<length sl]"
  have each: "\<exists>F. pd_concat (?others i) = Inr F \<and> df_rows F = concat (map df_rows (?others i))"
    if "i < length sl" for i
  proof (rule pd_concat_rows)
    have "length (?others i) = length sl - 1" using that by simp
    then have "0 < length (?others i)" using assms(1) by simp
    then show "?others i \<noteq> []" by (metis length_greater_0_conv)
    show "\<forall>f\<in>set (?others i). length (index f) = length (cells f)"
      using assms(2) by (auto dest: in_set_takeD in_set_dropD)
  qed
  have "\<forall>r\<in>set ?rs. \<exists>x. r = Inr x"
  proof
    fix r assume "r \<in> set ?rs"
    then obtain i where "i < length sl" "r = pd_concat (?others i)" by auto
    with each[of i] show "\<exists>x. r = Inr x" by blast
  qed
  then have c: "collect ?rs = Inr (map projr ?rs)" by (rule collect_all)
  have "df_rows (map projr ?rs ! i) = concat (map df_rows (?others i))"
    if "i < length sl" for i
    using each[OF that] that by auto
  with c show ?thesis by auto
qed

lemma sum_list_const_mset:
  "(\<Sum>p\<leftarrow>xs. (R :: 'a multiset)) = repeat_mset (length xs) R"
  by (induction xs) auto

text \<open>
  C8, for at least two slices. Let the data have as many index labels as rows, let
  \<open>picks\<close> be an order of all its rows, and let \<open>k\<close> be at least 2. Then \<open>split\<close>
  returns \<open>k\<close> pairs of an estimation set and a validation set. The sizes of the
  validation sets sum to the number of rows; taken together, as multisets of rows, the
  validation sets are the data, so every row is in exactly one of them; in each pair
  the estimation set and the validation set together are the data, so the estimation
  set is the complement; the estimation sets together hold every row \<open>k - 1\<close> times;
  and when the index labels are distinct, no label is in two validation sets.
\<close>

theorem split_partitions:
  assumes "length (index (heap st ! data st)) = length (cells (heap st ! data st))"
    and "mset picks = mset [0..<length (cells (heap st ! data st))]"
    and "2 \<le> k"
  shows "\<exists>pairs.
           split picks k st = Inr pairs \<and> length pairs = nat k
         \<and> sum_list (map (\<lambda>p. nrows (snd p)) pairs) = nrows (heap st ! data st)
         \<and> (\<Sum>p\<leftarrow>pairs. mset (df_rows (snd p))) = mset (df_rows (heap st ! data st))
         \<and> (\<forall>p\<in>set pairs. mset (df_rows (fst p)) + mset (df_rows (snd p))
                               = mset (df_rows (heap st ! data st)))
         \<and> (\<Sum>p\<leftarrow>pairs. mset (df_rows (fst p)))
              = repeat_mset (nat k - 1) (mset (df_rows (heap st ! data st)))
         \<and> (distinct (index (heap st ! data st)) \<longrightarrow>
              (\<forall>i j. i < j \<longrightarrow> j < nat k \<longrightarrow>
                 set (index (snd (pairs ! i))) \<inter> set (index (snd (pairs ! j))) = {}))"
proof -
  let ?df = "heap st ! data st"
  let ?R = "mset (df_rows ?df)"
  from shuffled_rows[OF assms(1,2)] obtain sh where
    sh: "df_sample picks 1 None ?df = Inr sh" and shm: "mset (df_rows sh) = ?R"
    and shi: "map fst (df_rows sh) = map (\<lambda>p. index ?df ! p) picks"
    by blast
  define K where "K = nat k"
  have K: "2 \<le> K" "0 < K" using assms(3) by (simp_all add: K_def)
  define Cs where "Cs = chunks (split_sizes (length (df_rows sh)) K) (df_rows sh)"
  define mk where "mk = (\<lambda>block :: (real \<times> real list) list.
      \<lparr>columns = columns sh, index = map fst block, cells = map snd block\<rparr>)"
  define sl where "sl = map mk Cs"
  have lenCs: "length Cs = K" by (simp add: Cs_def length_chunks length_split_sizes K(2))
  have catCs: "concat Cs = df_rows sh"
    unfolding Cs_def by (rule concat_chunks) (simp add: sum_split_sizes K(2))
  have rows_mk: "df_rows (mk b) = b" for b by (simp add: mk_def df_rows_block)
  have rows_sl: "map df_rows sl = Cs" by (simp add: sl_def comp_def rows_mk)
  have lensl: "length sl = K" by (simp add: sl_def lenCs)
  have wfsl: "\<forall>f\<in>set sl. length (index f) = length (cells f)" by (auto simp: sl_def mk_def)
  have asp: "array_split sh k = Inr sl"
    using assms(3) by (simp add: array_split_def sl_def mk_def Cs_def K_def)
  from estimation_sets[OF _ wfsl] K(1) lensl obtain est where
    est: "collect (map (\<lambda>i. pd_concat (take i sl @ drop (Suc i) sl)) [0..<length sl]) = Inr est"
    and lenest: "length est = length sl"
    and rows_est: "\<forall>i<length sl. df_rows (est ! i)
                  = concat (map df_rows (take i sl @ drop (Suc i) sl))"
    by auto
  define pairs where "pairs = zip est sl"
  have res: "split picks k st = Inr pairs"
    by (simp add: split_def sh asp est pairs_def)
  have lenp: "length pairs = K" by (simp add: pairs_def lenest lensl)
  have snds: "map snd pairs = sl" by (simp add: pairs_def lenest)
  have fsts: "map fst pairs = est" by (simp add: pairs_def lenest)
  have val_rows: "map (\<lambda>p. df_rows (snd p)) pairs = Cs"
    using arg_cong[OF snds, of "map df_rows"] by (simp add: comp_def rows_sl)
  have est_rows: "df_rows (est ! i) = concat (take i Cs @ drop (Suc i) Cs)" if "i < K" for i
    using rows_est that lensl by (simp add: rows_sl[symmetric] take_map drop_map)
  have compl: "mset (df_rows (est ! i)) + mset (df_rows (sl ! i)) = ?R" if "i < K" for i
  proof -
    have "df_rows (sl ! i) = Cs ! i" using that lenCs by (simp add: sl_def rows_mk)
    then show ?thesis
      using concat_without[of i Cs] that lenCs by (simp add: est_rows catCs shm)
  qed
  have p1: "sum_list (map (\<lambda>p. nrows (snd p)) pairs) = nrows ?df"
  proof -
    have "map (\<lambda>p. nrows (snd p)) pairs = map nrows sl"
      using arg_cong[OF snds, of "map nrows"] by (simp add: comp_def)
    also have "\<dots> = map length Cs" by (simp add: sl_def mk_def nrows_def comp_def)
    finally have "sum_list (map (\<lambda>p. nrows (snd p)) pairs) = length (concat Cs)"
      by (simp add: length_concat)
    also have "\<dots> = size ?R" by (simp add: catCs shm[symmetric])
    also have "\<dots> = nrows ?df" using assms(1) by (simp add: df_rows_def nrows_def)
    finally show ?thesis .
  qed
  have p2: "(\<Sum>p\<leftarrow>pairs. mset (df_rows (snd p))) = ?R"
  proof -
    have "(\<Sum>p\<leftarrow>pairs. mset (df_rows (snd p))) = sum_list (map mset (map (\<lambda>p. df_rows (snd p)) pairs))"
      by (simp add: comp_def)
    also have "\<dots> = mset (concat Cs)" by (simp only: val_rows mset_concat)
    finally show ?thesis by (simp add: catCs shm)
  qed
  have p3: "\<forall>p\<in>set pairs. mset (df_rows (fst p)) + mset (df_rows (snd p)) = ?R"
  proof
    fix p assume "p \<in> set pairs"
    then obtain i where i: "i < length pairs" "p = pairs ! i" by (auto simp: in_set_conv_nth)
    then have "fst p = est ! i" "snd p = sl ! i" by (simp_all add: pairs_def)
    with compl[of i] i(1) lenp show "mset (df_rows (fst p)) + mset (df_rows (snd p)) = ?R"
      by simp
  qed
  have p4: "(\<Sum>p\<leftarrow>pairs. mset (df_rows (fst p))) = repeat_mset (nat k - 1) ?R"
  proof -
    have "(\<Sum>p\<leftarrow>pairs. mset (df_rows (fst p))) + (\<Sum>p\<leftarrow>pairs. mset (df_rows (snd p)))
            = (\<Sum>p\<leftarrow>pairs. mset (df_rows (fst p)) + mset (df_rows (snd p)))"
      by (simp add: sum_list_addf)
    also have "\<dots> = (\<Sum>p\<leftarrow>pairs. ?R)" using p3 by (simp cong: map_cong)
    also have "\<dots> = repeat_mset K ?R" by (simp add: sum_list_const_mset lenp)
    also have "\<dots> = repeat_mset (K - 1) ?R + ?R"
    proof -
      have "K = Suc (K - 1)" using K(2) by simp
      then have "repeat_mset K ?R = repeat_mset (Suc (K - 1)) ?R" by simp
      then show ?thesis by simp
    qed
    finally have "(\<Sum>p\<leftarrow>pairs. mset (df_rows (fst p))) + ?R = repeat_mset (K - 1) ?R + ?R"
      by (simp only: p2)
    then show ?thesis by (simp add: K_def)
  qed
  have p5: "\<forall>i j. i < j \<longrightarrow> j < nat k \<longrightarrow>
                 set (index (snd (pairs ! i))) \<inter> set (index (snd (pairs ! j))) = {}"
    if d: "distinct (index ?df)"
  proof (intro allI impI)
    fix i j assume ij: "i < j" "j < nat k"
    then have jK: "j < K" "i < K" by (simp_all add: K_def)
    have "mset (map fst (df_rows sh)) = image_mset fst ?R" using shm by (metis mset_map)
    also have "\<dots> = mset (map fst (zip (index ?df) (cells ?df)))"
      by (simp only: df_rows_def mset_map)
    also have "\<dots> = mset (index ?df)" using assms(1) by (simp only: map_fst_zip)
    finally have "distinct (map fst (df_rows sh))"
      using d by (metis mset_eq_imp_distinct_iff)
    then have dc: "distinct (concat (map (map fst) Cs))"
      by (simp add: catCs[symmetric] map_concat)
    have ix: "index (snd (pairs ! n)) = map (map fst) Cs ! n" if "n < K" for n
      using that lenCs lenest lensl by (simp add: pairs_def sl_def mk_def)
    from disjoint_in_concat[OF dc ij(1)] jK lenCs
    show "set (index (snd (pairs ! i))) \<inter> set (index (snd (pairs ! j))) = {}"
      by (simp add: ix)
  qed
  from res lenp p1 p2 p3 p4 p5 show ?thesis by (auto simp: K_def)
qed

text \<open>
  C8 as stated fails for one slice: the estimation set of the only block would be the
  concatenation of no frames, which \<open>pd.concat\<close> refuses.
\<close>

theorem split_one_slice:
  "split [2, 0, 1] 1 demo_db = Inl (ValueError [Txt ''No objects to concatenate''])"
  by (simp add: split_def df_sample_def df_iloc_def array_split_def split_sizes_def df_rows_def
      pd_concat_def demo_db_def init_def demo_frame_def)

lemma demo_picks: "mset [2, 0, 1] = mset [0..<length (cells (heap demo_db ! data demo_db))]"
proof -
  have "[0..<3] = [0, 1, 2]" by (simp add: upt_rec)
  then show ?thesis
    by (simp add: demo_db_def init_def demo_frame_def add_mset_commute)
qed

lemma demo_lengths:
  "length (index (heap demo_db ! data demo_db)) = length (cells (heap demo_db ! data demo_db))"
  by (simp add: demo_db_def init_def demo_frame_def)

text \<open>The theorem at work: the three rows of the demo database in two slices.\<close>

theorem split_partitions_witness:
  "mset [2, 0, 1] = mset [0..<length (cells (heap demo_db ! data demo_db))]
   \<and> (\<exists>pairs. split [2, 0, 1] 2 demo_db = Inr pairs \<and> length pairs = 2
         \<and> sum_list (map (\<lambda>p. nrows (snd p)) pairs) = 3
         \<and> (\<Sum>p\<leftarrow>pairs. mset (df_rows (snd p))) = mset (df_rows demo_frame))"
proof -
  have k: "2 \<le> (2 :: int)" by simp
  from split_partitions[OF demo_lengths demo_picks k]
  obtain pairs where p: "split [2, 0, 1] 2 demo_db = Inr pairs" "length pairs = nat 2"
    "sum_list (map (\<lambda>p. nrows (snd p)) pairs) = nrows (heap demo_db ! data demo_db)"
    "(\<Sum>p\<leftarrow>pairs. mset (df_rows (snd p))) = mset (df_rows (heap demo_db ! data demo_db))"
    by blast
  have h: "heap demo_db ! data demo_db = demo_frame" by (simp add: demo_db_def init_def)
  have n: "nrows demo_frame = 3" by (simp add: nrows_def demo_frame_def)
  from p have "length pairs = 2" "sum_list (map (\<lambda>p. nrows (snd p)) pairs) = 3"
    "(\<Sum>p\<leftarrow>pairs. mset (df_rows (snd p))) = mset (df_rows demo_frame)"
    by (simp_all only: h n nat_numeral)
  with p(1) demo_picks show ?thesis by blast
qed


section \<open>A chosen alternative without availability\<close>

lemma apply_rows_nth:
  "apply_rows f rs = Inr vs \<Longrightarrow> i < length rs \<Longrightarrow> f (rs ! i) = Inr (vs ! i)"
proof (induction rs arbitrary: vs i)
  case Nil
  then show ?case by simp
next
  case (Cons r rs)
  then show ?case by (cases i) (auto split: sum.splits)
qed

lemma apply_rows_all:
  assumes "\<forall>r\<in>set rs. f r = Inr v"
  shows "apply_rows f rs = Inr (replicate (length rs) v)"
  using assms by (induction rs) auto

lemma missing_key_row:
  assumes "choice r = Inr chosen" "avail chosen = None"
  shows "functionToApply_avail avail choice r = Inr False"
  using assms by (simp add: functionToApply_avail_def dict_getitem_def)

text \<open>
  C9. On a row where the choice expression returns a value that is no key of the
  availability dictionary, the function applied to the row returns \<open>False\<close> and does
  not raise. So when \<open>checkAvailabilityOfChosenAlt\<close> returns, its result has one entry
  per row and the entry of every such row is \<open>False\<close>; and when every row is such a
  row, the call returns, with \<open>False\<close> for every row.
\<close>

theorem missing_alternative_unavailable:
  "(choice r = Inr chosen \<longrightarrow> avail chosen = None \<longrightarrow>
      functionToApply_avail avail choice r = Inr False)
   \<and> (checkAvailabilityOfChosenAlt avail choice st = Inr res \<longrightarrow>
        length res = length (rows_of (heap st ! data st))
        \<and> (\<forall>i<length res. \<forall>c. choice (rows_of (heap st ! data st) ! i) = Inr c \<longrightarrow>
              avail c = None \<longrightarrow> res ! i = False))
   \<and> ((\<forall>r\<in>set (rows_of (heap st ! data st)). \<exists>c. choice r = Inr c \<and> avail c = None) \<longrightarrow>
        checkAvailabilityOfChosenAlt avail choice st
          = Inr (replicate (length (rows_of (heap st ! data st))) False))"
proof (intro conjI impI allI)
  assume "choice r = Inr chosen" "avail chosen = None"
  then show "functionToApply_avail avail choice r = Inr False" by (rule missing_key_row)
next
  assume a: "checkAvailabilityOfChosenAlt avail choice st = Inr res"
  then show "length res = length (rows_of (heap st ! data st))"
    unfolding checkAvailabilityOfChosenAlt_def by (rule apply_rows_length)
next
  fix i c
  assume a: "checkAvailabilityOfChosenAlt avail choice st = Inr res"
    and i: "i < length res"
    and c: "choice (rows_of (heap st ! data st) ! i) = Inr c" "avail c = None"
  from a have len: "length res = length (rows_of (heap st ! data st))"
    unfolding checkAvailabilityOfChosenAlt_def by (rule apply_rows_length)
  from a i len have "functionToApply_avail avail choice (rows_of (heap st ! data st) ! i)
      = Inr (res ! i)"
    unfolding checkAvailabilityOfChosenAlt_def by (intro apply_rows_nth) simp_all
  with missing_key_row[of choice "rows_of (heap st ! data st) ! i" c avail, OF c]
  show "res ! i = False" by simp
next
  assume "\<forall>r\<in>set (rows_of (heap st ! data st)). \<exists>c. choice r = Inr c \<and> avail c = None"
  then have "\<forall>r\<in>set (rows_of (heap st ! data st)). functionToApply_avail avail choice r = Inr False"
    by (auto intro: missing_key_row)
  then show "checkAvailabilityOfChosenAlt avail choice st
          = Inr (replicate (length (rows_of (heap st ! data st))) False)"
    unfolding checkAvailabilityOfChosenAlt_def by (rule apply_rows_all)
qed


lemma demo_rows:
  "rows_of (heap demo_db ! data demo_db)
     = [(0, [(Name ''id'', 1), (Name ''x'', 10)]),
        (1, [(Name ''id'', 1), (Name ''x'', 20)]),
        (2, [(Name ''id'', 2), (Name ''x'', 30)])]"
  by (simp add: rows_of_def demo_db_def init_def demo_frame_def)

text \<open>
  The theorem at work on the demo database: the chosen alternative is the index label,
  and the dictionary has the key 1 alone, or no key.
\<close>

theorem missing_alternative_unavailable_witness:
  "functionToApply_avail [1 \<mapsto> (\<lambda>r. Inr 1)] (\<lambda>r. Inr (fst r)) (0, []) = Inr False
   \<and> checkAvailabilityOfChosenAlt [1 \<mapsto> (\<lambda>r. Inr 1)] (\<lambda>r. Inr (fst r)) demo_db
       = Inr [False, True, False]
   \<and> checkAvailabilityOfChosenAlt Map.empty (\<lambda>r. Inr (fst r)) demo_db
       = Inr [False, False, False]"
proof -
  have a: "(\<lambda>r :: row. (Inr (fst r) :: error + real)) (0, []) = Inr 0" by simp
  have b: "[1 \<mapsto> (\<lambda>r :: row. (Inr 1 :: error + real))] (0 :: real) = None" by simp
  note T1 = missing_alternative_unavailable[of "\<lambda>r. Inr (fst r)" "(0, [])" 0
      "[1 \<mapsto> (\<lambda>r. Inr 1)]", THEN conjunct1, THEN mp, THEN mp, OF a b]
  have c: "\<forall>r\<in>set (rows_of (heap demo_db ! data demo_db)).
             \<exists>c. (\<lambda>r :: row. (Inr (fst r) :: error + real)) r = Inr c
                 \<and> (Map.empty :: real \<rightharpoonup> expression) c = None"
    by simp
  note T3 = missing_alternative_unavailable[of "\<lambda>r. Inr (fst r)" _ _ Map.empty demo_db,
      THEN conjunct2, THEN conjunct2, THEN mp, OF c]
  have t3: "checkAvailabilityOfChosenAlt Map.empty (\<lambda>r. Inr (fst r)) demo_db
       = Inr [False, False, False]"
    using T3 by (simp add: demo_rows)
  have t2: "checkAvailabilityOfChosenAlt [1 \<mapsto> (\<lambda>r. Inr 1)] (\<lambda>r. Inr (fst r)) demo_db
       = Inr [False, True, False]"
    by (simp add: checkAvailabilityOfChosenAlt_def demo_rows functionToApply_avail_def
        dict_getitem_def)
  from T1 t2 t3 show ?thesis by blast
qed

end
